theory Spec2Isabelle
  imports Main "HOL-Library.Word"
begin

unbundle bit_operations_syntax

section \<open>TabFS background script: the synthetic-filesystem route engine\<close>

text \<open>
  A shallow embedding of \<^verbatim>\<open>extension/background.js\<close>: the error numbers, the
  string and byte conversions the script obtains from the browser, the handle cache, the
  file operations that \<^verbatim>\<open>makeRouteWithContents\<close> builds from a pair of accessors, route
  resolution, and the message dispatcher with its timeout.

  JavaScript strings are sequences of 16-bit code units, a \<^verbatim>\<open>Uint8Array\<close> is a sequence
  of bytes. Request fields that are numbers (\<^verbatim>\<open>fh\<close>, \<^verbatim>\<open>offset\<close>, \<^verbatim>\<open>size\<close>) are the
  non-negative integers the filesystem host sends and are modelled as \<^typ>\<open>nat\<close>.
\<close>

type_synonym jsstring = "16 word list"
type_synonym bytes = "8 word list"

definition js :: "string \<Rightarrow> jsstring" where
  \<comment> \<open>an ASCII literal as a JavaScript string\<close>
  "js s = map (\<lambda>c. of_nat (of_char c)) s"

subsection \<open>The \<^verbatim>\<open>unix\<close> table and \<^verbatim>\<open>UnixError\<close>\<close>

definition ENOENT :: nat where "ENOENT = 2"
definition ESRCH :: nat where "ESRCH = 3"
definition EINTR :: nat where "EINTR = 4"
definition EIO :: nat where "EIO = 5"
definition ENXIO :: nat where "ENXIO = 6"
definition ENOTSUP :: nat where "ENOTSUP = 45"
definition ETIMEDOUT :: nat where "ETIMEDOUT = 110"

text \<open>The file types are octal in the source: \<^verbatim>\<open>0170000\<close>, \<^verbatim>\<open>0100000\<close>, and so on.\<close>

definition S_IFMT :: nat where "S_IFMT = 0xF000"
definition S_IFIFO :: nat where "S_IFIFO = 0x1000"
definition S_IFCHR :: nat where "S_IFCHR = 0x2000"
definition S_IFDIR :: nat where "S_IFDIR = 0x4000"
definition S_IFBLK :: nat where "S_IFBLK = 0x6000"
definition S_IFREG :: nat where "S_IFREG = 0x8000"
definition S_IFLNK :: nat where "S_IFLNK = 0xA000"
definition S_IFSOCK :: nat where "S_IFSOCK = 0xC000"

text \<open>
  What a handler can throw (or reject its promise with): a \<^verbatim>\<open>UnixError\<close> carrying its
  error number, or one of the failures JavaScript itself raises in this script: a
  \<^verbatim>\<open>TypeError\<close> (a property of \<^verbatim>\<open>undefined\<close>, a call of something that is not a
  function), a \<^verbatim>\<open>RangeError\<close> (\<^verbatim>\<open>TypedArray.set\<close> out of bounds), the
  \<^verbatim>\<open>InvalidCharacterError\<close> of \<^verbatim>\<open>atob\<close> and \<^verbatim>\<open>btoa\<close>, or any other value an
  accessor throws.
\<close>

datatype exn = UnixError nat | TypeError | RangeError | InvalidCharacterError | Thrown string

subsection \<open>\<^verbatim>\<open>stringToUtf8Array\<close>: \<^verbatim>\<open>TextEncoder.encode\<close>\<close>

text \<open>
  The encoder first reads the code units as Unicode scalar values (a surrogate pair is
  one code point, a lone surrogate becomes U+FFFD), then writes each in UTF-8.
\<close>

definition isHighSurrogate :: "16 word \<Rightarrow> bool" where
  "isHighSurrogate c = (0xD800 \<le> c \<and> c \<le> 0xDBFF)"

definition isLowSurrogate :: "16 word \<Rightarrow> bool" where
  "isLowSurrogate c = (0xDC00 \<le> c \<and> c \<le> 0xDFFF)"

definition scalarOfUnit :: "16 word \<Rightarrow> nat" where
  "scalarOfUnit c = (if isHighSurrogate c \<or> isLowSurrogate c then 0xFFFD else unat c)"

fun codePoints :: "jsstring \<Rightarrow> nat list" where
  "codePoints [] = []"
| "codePoints [c] = [scalarOfUnit c]"
| "codePoints (c # d # cs) =
     (if isHighSurrogate c \<and> isLowSurrogate d
      then (0x10000 + (unat c - 0xD800) * 0x400 + (unat d - 0xDC00)) # codePoints cs
      else scalarOfUnit c # codePoints (d # cs))"

definition utf8Bytes :: "nat \<Rightarrow> bytes" where
  "utf8Bytes cp =
     (if cp < 0x80 then [of_nat cp]
      else if cp < 0x800 then [of_nat (0xC0 + cp div 0x40), of_nat (0x80 + cp mod 0x40)]
      else if cp < 0x10000 then
        [of_nat (0xE0 + cp div 0x1000), of_nat (0x80 + cp div 0x40 mod 0x40),
         of_nat (0x80 + cp mod 0x40)]
      else
        [of_nat (0xF0 + cp div 0x40000), of_nat (0x80 + cp div 0x1000 mod 0x40),
         of_nat (0x80 + cp div 0x40 mod 0x40), of_nat (0x80 + cp mod 0x40)])"

definition stringToUtf8Array :: "jsstring \<Rightarrow> bytes" where
  "stringToUtf8Array str = concat (map utf8Bytes (codePoints str))"

subsection \<open>\<^verbatim>\<open>utf8ArrayToString\<close>: \<^verbatim>\<open>TextDecoder.decode\<close>\<close>

text \<open>
  The decoder is not fatal: every malformed sequence yields U+FFFD and decoding goes on.
  Its state is the number of continuation bytes still needed, the code point so far and
  the bounds the next byte must lie in; a byte outside the bounds ends the sequence with
  an error and is read again as the start of the next one. A leading byte order mark is
  dropped.
\<close>

function utf8Decoder :: "nat \<Rightarrow> nat \<Rightarrow> nat \<Rightarrow> nat \<Rightarrow> nat list \<Rightarrow> nat list" where
  "utf8Decoder needed cp lo hi [] = (if needed = 0 then [] else [0xFFFD])"
| "utf8Decoder needed cp lo hi (b # bs) =
     (if needed = 0 then
        (if b < 0x80 then b # utf8Decoder 0 0 0x80 0xBF bs
         else if 0xC2 \<le> b \<and> b \<le> 0xDF then utf8Decoder 1 (b mod 0x20) 0x80 0xBF bs
         else if 0xE0 \<le> b \<and> b \<le> 0xEF then
           utf8Decoder 2 (b mod 0x10) (if b = 0xE0 then 0xA0 else 0x80)
             (if b = 0xED then 0x9F else 0xBF) bs
         else if 0xF0 \<le> b \<and> b \<le> 0xF4 then
           utf8Decoder 3 (b mod 8) (if b = 0xF0 then 0x90 else 0x80)
             (if b = 0xF4 then 0x8F else 0xBF) bs
         else 0xFFFD # utf8Decoder 0 0 0x80 0xBF bs)
      else if b < lo \<or> hi < b then 0xFFFD # utf8Decoder 0 0 0x80 0xBF (b # bs)
      else if needed = 1 then (cp * 0x40 + b mod 0x40) # utf8Decoder 0 0 0x80 0xBF bs
      else utf8Decoder (needed - 1) (cp * 0x40 + b mod 0x40) 0x80 0xBF bs)"
  by pat_completeness auto
termination
  by (relation "measure (\<lambda>(needed, cp, lo, hi, bs). 2 * length bs + (if needed = 0 then 0 else 1))")
     auto

definition utf16Units :: "nat \<Rightarrow> jsstring" where
  "utf16Units cp =
     (if cp < 0x10000 then [of_nat cp]
      else [of_nat (0xD800 + (cp - 0x10000) div 0x400), of_nat (0xDC00 + (cp - 0x10000) mod 0x400)])"

definition stripBOM :: "bytes \<Rightarrow> bytes" where
  "stripBOM arr = (if take 3 arr = [0xEF, 0xBB, 0xBF] then drop 3 arr else arr)"

definition utf8ArrayToString :: "bytes \<Rightarrow> jsstring" where
  "utf8ArrayToString utf8 =
     concat (map utf16Units (utf8Decoder 0 0 0x80 0xBF (map unat (stripBOM utf8))))"

subsection \<open>\<^verbatim>\<open>btoa\<close> and \<^verbatim>\<open>atob\<close>\<close>

text \<open>
  \<^verbatim>\<open>btoa\<close> takes a binary string (every code unit at most 255, one per byte) to its
  base64 text and throws on any other string; \<^verbatim>\<open>atob\<close> is the forgiving base64 decoder:
  it drops ASCII whitespace and one or two trailing \<^verbatim>\<open>=\<close> of a text whose length is a
  multiple of four, throws on a length of 1 modulo 4 and on a character outside the
  alphabet, and returns the binary string.
\<close>

definition b64alphabet :: "jsstring" where
  "b64alphabet = js ''ABCDEFGHIJKLMNOPQRSTUVWXYZabcdefghijklmnopqrstuvwxyz0123456789+/''"

definition b64char :: "nat \<Rightarrow> 16 word" where
  "b64char n = b64alphabet ! (n mod 64)"

definition b64index :: "16 word \<Rightarrow> nat option" where
  "b64index c = map_of (zip b64alphabet [0..<64]) c"

fun b64enc :: "nat list \<Rightarrow> jsstring" where
  "b64enc [] = []"
| "b64enc [a] = [b64char (a div 4), b64char (a mod 4 * 16), 0x3D, 0x3D]"
| "b64enc [a, b] =
     [b64char (a div 4), b64char (a mod 4 * 16 + b div 16), b64char (b mod 16 * 4), 0x3D]"
| "b64enc (a # b # c # r) =
     [b64char (a div 4), b64char (a mod 4 * 16 + b div 16),
      b64char (b mod 16 * 4 + c div 64), b64char (c mod 64)] @ b64enc r"

fun b64dec :: "nat list \<Rightarrow> nat list" where
  "b64dec (a # b # c # d # r) =
     [a * 4 + b div 16, b mod 16 * 16 + c div 4, c mod 4 * 64 + d] @ b64dec r"
| "b64dec [a, b, c] = [a * 4 + b div 16, b mod 16 * 16 + c div 4]"
| "b64dec [a, b] = [a * 4 + b div 16]"
| "b64dec _ = []"

definition btoa :: "jsstring \<Rightarrow> exn + jsstring" where
  "btoa s = (if \<exists>c \<in> set s. 0xFF < c then Inl InvalidCharacterError
             else Inr (b64enc (map unat s)))"

definition isAsciiWhitespace :: "16 word \<Rightarrow> bool" where
  "isAsciiWhitespace c = (c = 0x09 \<or> c = 0x0A \<or> c = 0x0C \<or> c = 0x0D \<or> c = 0x20)"

definition stripPadding :: "jsstring \<Rightarrow> jsstring" where
  "stripPadding d =
     (if length d mod 4 = 0 \<and> d \<noteq> [] \<and> last d = 0x3D then
        (if butlast d \<noteq> [] \<and> last (butlast d) = 0x3D then butlast (butlast d) else butlast d)
      else d)"

definition atob :: "jsstring \<Rightarrow> exn + jsstring" where
  "atob data =
     (let d = stripPadding (filter (\<lambda>c. \<not> isAsciiWhitespace c) data) in
      if length d mod 4 = 1 then Inl InvalidCharacterError
      else (case those (map b64index d) of
              None \<Rightarrow> Inl InvalidCharacterError
            | Some sextets \<Rightarrow> Inr (map of_nat (b64dec sextets))))"

subsection \<open>Requests, results and the accessors of a route\<close>

text \<open>
  The operation a request names. \<open>OtherOp\<close> stands for every name (\<^verbatim>\<open>readdir\<close>,
  \<^verbatim>\<open>readlink\<close>, ...) under which a route made by \<^verbatim>\<open>makeRouteWithContents\<close> has no
  function.
\<close>

datatype opname = Getattr | Open | Read | Write | Release | Truncate | OtherOp string

text \<open>
  The request object a handler receives is \<^verbatim>\<open>{...req, ...vars}\<close>: the fields of the
  message and the variables the route's pattern bound, kept here in a field of their
  own. A \<^verbatim>\<open>buf\<close> that is absent behaves in this script as the empty string does (both
  are falsy for the dispatcher, and the encoder writes no byte for either).
\<close>

record request =
  req_id :: int
  req_op :: opname
  req_path :: jsstring
  req_fh :: nat
  req_offset :: nat
  req_size :: nat
  req_buf :: jsstring
  req_vars :: "(jsstring \<times> jsstring) list"

text \<open>The object a handler resolves with; a field that is \<open>None\<close> is not there.\<close>

record payload =
  st_mode :: "nat option"
  st_nlink :: "nat option"
  st_size :: "nat option"
  res_fh :: "nat option"
  res_buf :: "jsstring option"
  res_size :: "nat option"

definition no_fields :: payload where
  "no_fields = \<lparr>st_mode = None, st_nlink = None, st_size = None,
                 res_fh = None, res_buf = None, res_size = None\<rparr>"

text \<open>
  \<^verbatim>\<open>getData\<close> resolves with a string, a \<^verbatim>\<open>Uint8Array\<close> or \<^verbatim>\<open>undefined\<close>, or rejects;
  \<^verbatim>\<open>setData\<close> is optional. Both talk to the browser: they read and change a world
  \<open>'w\<close> the script knows nothing about. An array that \<^verbatim>\<open>getData\<close> returns is taken to
  be one nobody else holds on to.
\<close>

datatype jsdata = Undefined | Str jsstring | Arr bytes

type_synonym 'w getter = "request \<Rightarrow> 'w \<Rightarrow> (exn + jsdata) \<times> 'w"
type_synonym 'w setter = "request \<Rightarrow> jsstring \<Rightarrow> 'w \<Rightarrow> (exn + unit) \<times> 'w"

datatype call = GetData request | SetData request jsstring

subsection \<open>The \<^verbatim>\<open>Cache\<close> object\<close>

text \<open>
  \<^verbatim>\<open>Cache.store\<close> maps a handle to \<^verbatim>\<open>{path, object}\<close>, where \<^verbatim>\<open>object\<close> is a reference to
  a \<^verbatim>\<open>Uint8Array\<close>: \<^verbatim>\<open>write\<close> changes the array in place and \<^verbatim>\<open>truncate\<close> hands one
  array to several handles. So the arrays live in a heap and the store holds addresses.
  The state also carries the world of the accessors and the log of the calls made to
  them.
\<close>

record 'w state =
  store :: "nat \<rightharpoonup> (jsstring \<times> nat)"
  nextHandle :: nat
  heap :: "nat \<Rightarrow> bytes"
  nextAddr :: nat
  world :: 'w
  calls :: "call list"

definition initial :: "'w \<Rightarrow> 'w state" where
  "initial w = \<lparr>store = Map.empty, nextHandle = 0, heap = (\<lambda>_. []), nextAddr = 0,
                 world = w, calls = []\<rparr>"

definition alloc :: "bytes \<Rightarrow> 'w state \<Rightarrow> nat \<times> 'w state" where
  \<comment> \<open>a new array object: \<^verbatim>\<open>new Uint8Array(...)\<close> or the result of the encoder\<close>
  "alloc arr s = (nextAddr s, s\<lparr>heap := (heap s)(nextAddr s := arr), nextAddr := Suc (nextAddr s)\<rparr>)"

definition storeObject :: "jsstring \<Rightarrow> nat \<Rightarrow> 'w state \<Rightarrow> nat \<times> 'w state" where
  "storeObject path object s =
     (let handle = nextHandle s + 1
      in (handle, s\<lparr>nextHandle := handle, store := (store s)(handle \<mapsto> (path, object))\<rparr>))"

definition getObjectForHandle :: "nat \<Rightarrow> 'w state \<Rightarrow> exn + nat" where
  "getObjectForHandle handle s =
     (case store s handle of None \<Rightarrow> Inl TypeError | Some (path, object) \<Rightarrow> Inr object)"

definition setObjectForHandle :: "nat \<Rightarrow> nat \<Rightarrow> 'w state \<Rightarrow> exn + 'w state" where
  "setObjectForHandle handle object s =
     (case store s handle of
        None \<Rightarrow> Inl TypeError
      | Some (path, _) \<Rightarrow> Inr (s\<lparr>store := (store s)(handle \<mapsto> (path, object))\<rparr>))"

definition removeObjectForHandle :: "nat \<Rightarrow> 'w state \<Rightarrow> 'w state" where
  "removeObjectForHandle handle s = s\<lparr>store := (store s)(handle := None)\<rparr>"

definition setObjectForPath :: "jsstring \<Rightarrow> nat \<Rightarrow> 'w state \<Rightarrow> 'w state" where
  "setObjectForPath path object s =
     s\<lparr>store := (\<lambda>handle. case store s handle of
                    None \<Rightarrow> None
                  | Some (p, old) \<Rightarrow> Some (p, if p = path then object else old))\<rparr>"

subsection \<open>Array helpers\<close>

definition sliceArr :: "'a list \<Rightarrow> nat \<Rightarrow> nat \<Rightarrow> 'a list" where
  \<comment> \<open>\<^verbatim>\<open>arr.slice(start, stop)\<close> for non-negative arguments\<close>
  "sliceArr arr start stop = take (stop - start) (drop start arr)"

definition typedSet :: "bytes \<Rightarrow> bytes \<Rightarrow> nat \<Rightarrow> exn + bytes" where
  \<comment> \<open>\<^verbatim>\<open>target.set(source, offset)\<close>; the array after the call\<close>
  "typedSet target source offset =
     (if offset + length source > length target then Inl RangeError
      else Inr (take offset target @ source @ drop (offset + length source) target))"

definition fromCharCode :: "bytes \<Rightarrow> jsstring" where
  \<comment> \<open>\<^verbatim>\<open>String.fromCharCode(...arr)\<close>: one code unit per byte\<close>
  "fromCharCode arr = map ucast arr"

definition toUtf8Array :: "jsdata \<Rightarrow> bytes option" where
  \<comment> \<open>a string is encoded, anything else is returned as it is (\<open>None\<close> is \<^verbatim>\<open>undefined\<close>)\<close>
  "toUtf8Array stringOrArray =
     (case stringOrArray of
        Str str \<Rightarrow> Some (stringToUtf8Array str)
      | Arr arr \<Rightarrow> Some arr
      | Undefined \<Rightarrow> None)"

definition callGetData :: "'w getter \<Rightarrow> request \<Rightarrow> 'w state \<Rightarrow> (exn + jsdata) \<times> 'w state" where
  "callGetData getData req s =
     (case getData req (world s) of
        (r, w) \<Rightarrow> (r, s\<lparr>world := w, calls := calls s @ [GetData req]\<rparr>))"

definition callSetData ::
  "'w setter option \<Rightarrow> request \<Rightarrow> jsstring \<Rightarrow> 'w state \<Rightarrow> (exn + unit) \<times> 'w state" where
  \<comment> \<open>calling \<^verbatim>\<open>setData\<close> when the route was made without one is a \<^verbatim>\<open>TypeError\<close>\<close>
  "callSetData setData req contents s =
     (case setData of
        None \<Rightarrow> (Inl TypeError, s)
      | Some f \<Rightarrow>
          (case f req contents (world s) of
             (r, w) \<Rightarrow> (r, s\<lparr>world := w, calls := calls s @ [SetData req contents]\<rparr>)))"

subsection \<open>\<^verbatim>\<open>makeRouteWithContents\<close>\<close>

text \<open>
  Each operation runs from the state it is called in to the state it settles in and
  returns what its promise settles with: \<open>Inl\<close> a rejection, \<open>Inr\<close> the result object.
  What other requests do to the cache while an operation awaits an accessor is not part
  of this: an operation is followed on its own, from its call to its end. The names
  \<^verbatim>\<open>open\<close>, \<^verbatim>\<open>write\<close> and \<^verbatim>\<open>truncate\<close> are taken in Isabelle, so these three operations
  are \<open>open_h\<close>, \<open>write_h\<close> and \<open>truncate_h\<close>.
\<close>

type_synonym 'w handler = "request \<Rightarrow> 'w state \<Rightarrow> (exn + payload) \<times> 'w state"

definition getattr :: "'w getter \<Rightarrow> 'w setter option \<Rightarrow> 'w handler" where
  "getattr getData setData req s =
     (case callGetData getData req s of
        (Inl e, s1) \<Rightarrow> (Inl e, s1)
      | (Inr data, s1) \<Rightarrow>
          (if data = Undefined then (Inl (UnixError ENOENT), s1)
           else (case toUtf8Array data of
                   None \<Rightarrow> (Inl TypeError, s1)
                 | Some arr \<Rightarrow>
                     (Inr (no_fields\<lparr>
                        st_mode := Some (S_IFREG OR 0x124 OR (if setData \<noteq> None then 0x92 else 0)),
                        st_nlink := Some 1,
                        st_size := Some (length arr)\<rparr>), s1))))"

definition open_h :: "'w getter \<Rightarrow> 'w setter option \<Rightarrow> 'w handler" where
  "open_h getData setData req s =
     (case callGetData getData req s of
        (Inl e, s1) \<Rightarrow> (Inl e, s1)
      | (Inr data, s1) \<Rightarrow>
          (if data = Undefined then (Inl (UnixError ENOENT), s1)
           else (case toUtf8Array data of
                   None \<Rightarrow> (Inl TypeError, s1)
                 | Some arr \<Rightarrow>
                     (case alloc arr s1 of
                        (object, s2) \<Rightarrow>
                          (case storeObject (req_path req) object s2 of
                             (handle, s3) \<Rightarrow>
                               (Inr (no_fields\<lparr>res_fh := Some handle\<rparr>), s3))))))"

definition read :: "'w getter \<Rightarrow> 'w setter option \<Rightarrow> 'w handler" where
  "read getData setData req s =
     (case getObjectForHandle (req_fh req) s of
        Inl e \<Rightarrow> (Inl e, s)
      | Inr object \<Rightarrow>
          (Inr (no_fields\<lparr>res_buf :=
                  Some (fromCharCode (sliceArr (heap s object) (req_offset req)
                                        (req_offset req + req_size req)))\<rparr>), s))"

text \<open>
  \<^verbatim>\<open>write\<close>: the part up to \<^verbatim>\<open>arr.set(bufarr, offset)\<close> changes the cache and yields the
  address of the array written to; then \<^verbatim>\<open>setData\<close> gets the whole array as text.
\<close>

definition writeBuffer :: "request \<Rightarrow> 'w state \<Rightarrow> exn + nat \<times> 'w state" where
  "writeBuffer req s =
     (case getObjectForHandle (req_fh req) s of
        Inl e \<Rightarrow> Inl e
      | Inr object \<Rightarrow>
          (let arr = heap s object;
               bufarr = stringToUtf8Array (req_buf req);
               offset = req_offset req;
               grown =
                 (if offset + length bufarr > length arr then
                    (case typedSet (replicate (offset + length bufarr) 0)
                            (sliceArr arr 0 (min offset (length arr))) 0 of
                       Inl e \<Rightarrow> Inl e
                     | Inr newArr \<Rightarrow>
                         (case alloc newArr s of
                            (object', s1) \<Rightarrow>
                              (case setObjectForHandle (req_fh req) object' s1 of
                                 Inl e \<Rightarrow> Inl e
                               | Inr s2 \<Rightarrow> Inr (object', s2))))
                  else Inr (object, s))
           in case grown of
                Inl e \<Rightarrow> Inl e
              | Inr (object', s2) \<Rightarrow>
                  (case typedSet (heap s2 object') bufarr offset of
                     Inl e \<Rightarrow> Inl e
                   | Inr arr' \<Rightarrow> Inr (object', s2\<lparr>heap := (heap s2)(object' := arr')\<rparr>))))"

definition write_h :: "'w getter \<Rightarrow> 'w setter option \<Rightarrow> 'w handler" where
  "write_h getData setData req s =
     (case writeBuffer req s of
        Inl e \<Rightarrow> (Inl e, s)
      | Inr (object, s1) \<Rightarrow>
          (case callSetData setData req (utf8ArrayToString (heap s1 object)) s1 of
             (Inl e, s2) \<Rightarrow> (Inl e, s2)
           | (Inr _, s2) \<Rightarrow>
               (Inr (no_fields\<lparr>res_size := Some (length (stringToUtf8Array (req_buf req)))\<rparr>), s2)))"

definition release :: "'w getter \<Rightarrow> 'w setter option \<Rightarrow> 'w handler" where
  "release getData setData req s = (Inr no_fields, removeObjectForHandle (req_fh req) s)"

definition truncate_h :: "'w getter \<Rightarrow> 'w setter option \<Rightarrow> 'w handler" where
  "truncate_h getData setData req s =
     (case callGetData getData req s of
        (Inl e, s1) \<Rightarrow> (Inl e, s1)
      | (Inr data, s1) \<Rightarrow>
          (case toUtf8Array data of
             None \<Rightarrow> (Inl TypeError, s1)
           | Some arr \<Rightarrow>
               (case (if req_size req \<noteq> length arr then
                        typedSet (replicate (req_size req) 0)
                          (sliceArr arr 0 (min (req_size req) (length arr))) 0
                      else Inr arr) of
                  Inl e \<Rightarrow> (Inl e, s1)
                | Inr arr' \<Rightarrow>
                    (case alloc arr' s1 of
                       (object, s2) \<Rightarrow>
                         (case callSetData setData req (utf8ArrayToString arr')
                                 (setObjectForPath (req_path req) object s2) of
                            (Inl e, s3) \<Rightarrow> (Inl e, s3)
                          | (Inr _, s3) \<Rightarrow> (Inr no_fields, s3))))))"

definition makeRouteWithContents ::
  "'w getter \<Rightarrow> 'w setter option \<Rightarrow> opname \<Rightarrow> 'w handler option" where
  "makeRouteWithContents getData setData name =
     (case name of
        Getattr \<Rightarrow> Some (getattr getData setData)
      | Open \<Rightarrow> Some (open_h getData setData)
      | Read \<Rightarrow> Some (read getData setData)
      | Write \<Rightarrow> Some (write_h getData setData)
      | Release \<Rightarrow> Some (release getData setData)
      | Truncate \<Rightarrow> Some (truncate_h getData setData)
      | OtherOp _ \<Rightarrow> None)"

subsection \<open>\<^verbatim>\<open>sortedRoutes\<close> and \<^verbatim>\<open>tryMatchRoute\<close>\<close>

text \<open>
  Every value of \<^verbatim>\<open>Routes\<close> is expected to carry \<^verbatim>\<open>__matchVarCount\<close> and
  \<^verbatim>\<open>__match\<close>; this file reads them and does not set them, so they are fields of a
  route here, given with it. \<^verbatim>\<open>__match\<close> returns the variables the pattern binds, or
  nothing. \<open>ops\<close> is the rest of the route object: its operations.
\<close>

type_synonym vars = "(jsstring \<times> jsstring) list"

record 'h route =
  matchVarCount :: int
  match :: "jsstring \<Rightarrow> vars option"
  ops :: 'h

definition sortedRoutes :: "'h route list \<Rightarrow> 'h route list" where
  \<comment> \<open>\<^verbatim>\<open>Object.values(Routes).sort((a, b) => a.__matchVarCount - b.__matchVarCount)\<close>;
      the sort is stable\<close>
  "sortedRoutes Routes = sort_key matchVarCount Routes"

definition isAppleDouble :: "jsstring \<Rightarrow> bool" where
  \<comment> \<open>\<^verbatim>\<open>path.match(/\/\._[^\/]+$/)\<close>: the part after the last slash begins with
      \<^verbatim>\<open>._\<close> and goes on\<close>
  "isAppleDouble path =
     (let name = rev (takeWhile (\<lambda>c. c \<noteq> 0x2F) (rev path))
      in length name < length path \<and> take 2 name = [0x2E, 0x5F] \<and> 2 < length name)"

fun firstMatch :: "'h route list \<Rightarrow> jsstring \<Rightarrow> exn + 'h route \<times> vars" where
  "firstMatch [] path = Inl (UnixError ENOENT)"
| "firstMatch (route # rest) path =
     (case match route path of
        Some vars \<Rightarrow> Inr (route, vars)
      | None \<Rightarrow> firstMatch rest path)"

definition tryMatchRoute :: "'h route list \<Rightarrow> jsstring \<Rightarrow> exn + 'h route \<times> vars" where
  "tryMatchRoute Routes path =
     (if isAppleDouble path then Inl (UnixError ENOTSUP)
      else firstMatch (sortedRoutes Routes) path)"

subsection \<open>\<^verbatim>\<open>onMessage\<close>\<close>

record response =
  resp_id :: int
  resp_op :: opname
  resp_error :: "nat option"
  resp_fields :: payload

definition errorResponse :: "request \<Rightarrow> exn \<Rightarrow> response" where
  \<comment> \<open>the \<^verbatim>\<open>catch\<close> block: \<^verbatim>\<open>e instanceof UnixError ? e.error : unix.EIO\<close>\<close>
  "errorResponse req e =
     \<lparr>resp_id = req_id req, resp_op = req_op req,
      resp_error = Some (case e of UnixError err \<Rightarrow> err | _ \<Rightarrow> EIO),
      resp_fields = no_fields\<rparr>"

definition okResponse :: "request \<Rightarrow> payload \<Rightarrow> response" where
  "okResponse req result =
     \<lparr>resp_id = req_id req, resp_op = req_op req, resp_error = None, resp_fields = result\<rparr>"

definition timeoutResponse :: "request \<Rightarrow> response" where
  "timeoutResponse req =
     \<lparr>resp_id = req_id req, resp_op = req_op req, resp_error = Some ETIMEDOUT,
      resp_fields = no_fields\<rparr>"

text \<open>
  The first two lines of the \<^verbatim>\<open>try\<close> block: resolve the route and call its operation.
  A route without a function of that name makes the call a \<^verbatim>\<open>TypeError\<close>.
\<close>

definition callRoute ::
  "(opname \<Rightarrow> 'w handler option) route list \<Rightarrow> request \<Rightarrow> 'w state
     \<Rightarrow> (exn + payload) \<times> 'w state" where
  "callRoute Routes req s =
     (case tryMatchRoute Routes (req_path req) of
        Inl e \<Rightarrow> (Inl e, s)
      | Inr (route, vars) \<Rightarrow>
          (case ops route (req_op req) of
             None \<Rightarrow> (Inl TypeError, s)
           | Some operation \<Rightarrow> operation (req\<lparr>req_vars := vars\<rparr>) s))"

text \<open>
  The rest of the \<^verbatim>\<open>try\<close> block and the \<^verbatim>\<open>catch\<close>: what \<^verbatim>\<open>response\<close> holds once the
  operation has settled with \<open>outcome\<close>. A non-empty \<^verbatim>\<open>buf\<close> goes through \<^verbatim>\<open>btoa\<close>, whose
  failure is caught like any other.
\<close>

definition finish :: "request \<Rightarrow> exn + payload \<Rightarrow> response" where
  "finish req outcome =
     (case outcome of
        Inl e \<Rightarrow> errorResponse req e
      | Inr result \<Rightarrow>
          (case res_buf result of
             None \<Rightarrow> okResponse req result
           | Some b \<Rightarrow>
               (if b = [] then okResponse req result
                else (case btoa b of
                        Inl e \<Rightarrow> errorResponse req e
                      | Inr text \<Rightarrow> okResponse req (result\<lparr>res_buf := Some text\<rparr>)))))"

text \<open>
  One call of \<^verbatim>\<open>onMessage\<close> owns \<^verbatim>\<open>didTimeout\<close> and \<^verbatim>\<open>timeout\<close>; \<open>port\<close> lists the
  messages it has posted. Two things can happen to it, each at most once and in either
  order: the timer set for 1000 ms runs its callback (unless it was cleared), and the
  awaited operation settles, after which the function runs to its end without a break.
\<close>

datatype timer = Armed nat | Fired | Cleared

record pending =
  didTimeout :: bool
  timeout :: timer
  settled :: bool
  port :: "response list"

definition armed :: pending where
  "armed = \<lparr>didTimeout = False, timeout = Armed 1000, settled = False, port = []\<rparr>"

definition timerFires :: "request \<Rightarrow> pending \<Rightarrow> pending" where
  "timerFires req p =
     (case timeout p of
        Armed _ \<Rightarrow> p\<lparr>didTimeout := True, timeout := Fired, port := port p @ [timeoutResponse req]\<rparr>
      | _ \<Rightarrow> p)"

definition handlerSettles :: "request \<Rightarrow> exn + payload \<Rightarrow> pending \<Rightarrow> pending" where
  "handlerSettles req outcome p =
     (if settled p then p
      else if \<not> didTimeout p then
        p\<lparr>settled := True, timeout := Cleared, port := port p @ [finish req outcome]\<rparr>
      else p\<lparr>settled := True\<rparr>)"

datatype event = TimerFires | HandlerSettles "exn + payload"

fun step :: "request \<Rightarrow> event \<Rightarrow> pending \<Rightarrow> pending" where
  "step req TimerFires p = timerFires req p"
| "step req (HandlerSettles outcome) p = handlerSettles req outcome p"

fun run :: "request \<Rightarrow> event list \<Rightarrow> pending \<Rightarrow> pending" where
  "run req [] p = p"
| "run req (ev # evs) p = run req evs (step req ev p)"

text \<open>
  The whole of \<^verbatim>\<open>onMessage\<close> when the operation settles before the timer runs: the
  messages posted and the state left. \<^verbatim>\<open>atob\<close> is called outside the \<^verbatim>\<open>try\<close> block and
  before the timer is set: if it throws, the call ends there (\<open>Inl\<close>) with nothing posted.
\<close>

definition decodeRequest :: "request \<Rightarrow> exn + request" where
  "decodeRequest req =
     (if req_buf req \<noteq> [] then
        (case atob (req_buf req) of
           Inl e \<Rightarrow> Inl e
         | Inr b \<Rightarrow> Inr (req\<lparr>req_buf := b\<rparr>))
      else Inr req)"

definition onMessage ::
  "(opname \<Rightarrow> 'w handler option) route list \<Rightarrow> request \<Rightarrow> 'w state
     \<Rightarrow> (exn + response list) \<times> 'w state" where
  "onMessage Routes req s =
     (case decodeRequest req of
        Inl e \<Rightarrow> (Inl e, s)
      | Inr req' \<Rightarrow>
          (case callRoute Routes req' s of
             (outcome, s') \<Rightarrow> (Inr (port (handlerSettles req' outcome armed)), s')))"

subsection \<open>Serving a sequence of messages\<close>

fun serve ::
  "(opname \<Rightarrow> 'w handler option) route list \<Rightarrow> request list \<Rightarrow> 'w state \<Rightarrow> 'w state" where
  "serve Routes [] s = s"
| "serve Routes (req # reqs) s = serve Routes reqs (snd (onMessage Routes req s))"

definition contentRoutes :: "(opname \<Rightarrow> 'w handler option) route list \<Rightarrow> bool" where
  \<comment> \<open>every route is one that \<^verbatim>\<open>makeRouteWithContents\<close> made, as all three in this file are\<close>
  "contentRoutes Routes =
     (\<forall>route \<in> set Routes. \<exists>getData setData. ops route = makeRouteWithContents getData setData)"

definition bufferOf :: "'w state \<Rightarrow> nat \<Rightarrow> bytes option" where
  \<comment> \<open>the bytes cached under a handle\<close>
  "bufferOf s handle = (case store s handle of None \<Rightarrow> None | Some (path, object) \<Rightarrow> Some (heap s object))"

subsection \<open>Sample accessors, routes and requests\<close>

text \<open>
  A file whose contents are the world itself: \<open>liveText\<close> reads the text as it now is,
  \<open>storeText\<close> replaces it.
\<close>

definition liveText :: "jsstring getter" where
  "liveText req w = (Inr (Str w), w)"

definition storeText :: "jsstring setter" where
  "storeText req contents w = (Inr (), contents)"

definition noFile :: "jsstring getter" where
  "noFile req w = (Inr Undefined, w)"

definition prefixRoute :: "int \<Rightarrow> jsstring \<Rightarrow> 'h \<Rightarrow> 'h route" where
  \<comment> \<open>a route for the paths that begin with \<open>pre\<close>, binding what follows\<close>
  "prefixRoute n pre h =
     \<lparr>matchVarCount = n,
      match = (\<lambda>path. if take (length pre) path = pre \<and> length pre < length path
                       then Some [(js ''rest'', drop (length pre) path)] else None),
      ops = h\<rparr>"

definition literalRoute :: "jsstring \<Rightarrow> 'h \<Rightarrow> 'h route" where
  \<comment> \<open>a pattern without variables matches the identical path only\<close>
  "literalRoute pattern h =
     \<lparr>matchVarCount = 0, match = (\<lambda>path. if path = pattern then Some [] else None), ops = h\<rparr>"

definition message :: "int \<Rightarrow> opname \<Rightarrow> jsstring \<Rightarrow> request" where
  "message n name path =
     \<lparr>req_id = n, req_op = name, req_path = path, req_fh = 0, req_offset = 0, req_size = 0,
      req_buf = [], req_vars = []\<rparr>"

definition written :: "bytes \<Rightarrow> nat \<Rightarrow> bytes \<Rightarrow> bytes" where
  \<comment> \<open>an array after \<open>bufarr\<close> was written at \<open>offset\<close>, grown and zero-filled if need be\<close>
  "written arr offset bufarr =
     (if length arr < offset + length bufarr
      then take offset arr @ replicate (offset - length arr) 0 @ bufarr
      else take offset arr @ bufarr @ drop (offset + length bufarr) arr)"

definition resized :: "bytes \<Rightarrow> nat \<Rightarrow> bytes" where
  \<comment> \<open>an array cut or zero-padded to \<open>n\<close> bytes\<close>
  "resized arr n = take n arr @ replicate (n - length arr) 0"

definition twoHandles :: "jsstring state" where
  \<comment> \<open>the state after \<^verbatim>\<open>/f\<close>, which reads \<^verbatim>\<open>hello\<close>, was opened twice\<close>
  "twoHandles =
     \<lparr>store = [1 \<mapsto> (js ''/f'', 0), 2 \<mapsto> (js ''/f'', 1)], nextHandle = 2,
      heap = (\<lambda>_. [])(0 := [0x68, 0x65, 0x6C, 0x6C, 0x6F], 1 := [0x68, 0x65, 0x6C, 0x6C, 0x6F]),
      nextAddr = 2, world = js ''hello'', calls = []\<rparr>"

definition missingRoutes :: "(opname \<Rightarrow> jsstring handler option) route list" where
  \<comment> \<open>one route, whose read-accessor returns \<^verbatim>\<open>undefined\<close>\<close>
  "missingRoutes = [literalRoute (js ''/missing.json'') (makeRouteWithContents noFile None)]"

definition fileRoutes :: "(opname \<Rightarrow> jsstring handler option) route list" where
  \<comment> \<open>one route, \<^verbatim>\<open>/f\<close>, that reads and replaces the text of the world\<close>
  "fileRoutes = [literalRoute (js ''/f'') (makeRouteWithContents liveText (Some storeText))]"

definition readOnlyRoutes :: "(opname \<Rightarrow> jsstring handler option) route list" where
  \<comment> \<open>as the routes of this file are made: with a read-accessor only\<close>
  "readOnlyRoutes = [literalRoute (js ''/tabs.json'') (makeRouteWithContents liveText None)]"

definition threeRoutes :: "string route list" where
  \<comment> \<open>\<^verbatim>\<open>/#X/#Y\<close>, \<^verbatim>\<open>/a/#X\<close> and \<^verbatim>\<open>/a/b\<close>, named by their \<open>ops\<close>, as they might be registered\<close>
  "threeRoutes =
     [prefixRoute 2 (js ''/'') ''R2'', prefixRoute 1 (js ''/a/'') ''R1'',
      literalRoute (js ''/a/b'') ''R0'']"

definition released :: "nat \<Rightarrow> 'w state \<Rightarrow> bool" where
  \<comment> \<open>a handle that was given out and is no longer in the cache\<close>
  "released h s = (store s h = None \<and> h \<le> nextHandle s)"

fun b64sextets :: "nat list \<Rightarrow> nat list" where
  \<comment> \<open>the six-bit groups of a byte sequence, which \<open>b64enc\<close> writes in the alphabet\<close>
  "b64sextets [] = []"
| "b64sextets [a] = [a div 4, a mod 4 * 16]"
| "b64sextets [a, b] = [a div 4, a mod 4 * 16 + b div 16, b mod 16 * 4]"
| "b64sextets (a # b # c # r) =
     [a div 4, a mod 4 * 16 + b div 16, b mod 16 * 4 + c div 64, c mod 64] @ b64sextets r"

subsection \<open>What happens after an \<^verbatim>\<open>open\<close>\<close>

text \<open>
  Between two requests the browser may change the world of the accessors by itself.
  \<open>afterwards\<close> runs a sequence of such occurrences: messages served one after the
  other, and changes of the world.
\<close>

datatype 'w occurrence = Request request | World 'w

fun afterwards ::
  "(opname \<Rightarrow> 'w handler option) route list \<Rightarrow> 'w occurrence list \<Rightarrow> 'w state \<Rightarrow> 'w state" where
  "afterwards Routes [] s = s"
| "afterwards Routes (Request msg # rest) s = afterwards Routes rest (snd (onMessage Routes msg s))"
| "afterwards Routes (World w # rest) s = afterwards Routes rest (s\<lparr>world := w\<rparr>)"


definition wellFormed :: "'w state \<Rightarrow> bool" where
  \<comment> \<open>every handle in the cache was given out, and every array it holds was allocated\<close>
  "wellFormed s =
     ((\<forall>h \<in> dom (store s). h \<le> nextHandle s)
      \<and> (\<forall>h p a. store s h = Some (p, a) \<longrightarrow> a < nextAddr s))"


section \<open>Properties\<close>

subsection \<open>Arrays\<close>

lemma typedSet_in_range:
  "offset + length source \<le> length target \<Longrightarrow>
   typedSet target source offset =
     Inr (take offset target @ source @ drop (offset + length source) target)"
  by (simp add: typedSet_def)

lemma resize_copy:
  "typedSet (replicate n 0) (sliceArr arr 0 (min n (length arr))) 0 = Inr (resized arr n)"
  by (simp add: typedSet_def sliceArr_def min_def resized_def)

lemma resized_same_length: "resized arr (length arr) = arr"
  by (simp add: resized_def)


lemma grow_copy:
  "typedSet (replicate (offset + l) 0) (sliceArr arr 0 (min offset (length arr))) 0 =
     Inr (take offset arr @ replicate (offset + l - min offset (length arr)) 0)"
  by (simp add: typedSet_def sliceArr_def min_def)

lemma grow_set:
  "typedSet (take offset arr @ replicate (offset + length bufarr - min offset (length arr)) 0)
       bufarr offset =
     Inr (take offset arr @ replicate (offset - length arr) (0::8 word) @ bufarr)"
  by (auto simp: typedSet_def min_def)

lemma length_written:
  "length (written arr offset bufarr) = max (length arr) (offset + length bufarr)"
  by (auto simp: written_def)

lemma written_slice:
  "sliceArr (written arr offset bufarr) offset (offset + length bufarr) = bufarr"
  by (auto simp: written_def sliceArr_def)

subsection \<open>The handlers, one by one\<close>

lemma bufferOf_Some:
  "bufferOf s h = Some arr \<longleftrightarrow> (\<exists>path a. store s h = Some (path, a) \<and> heap s a = arr)"
  by (auto simp: bufferOf_def split: option.splits)

lemma read_cached:
  assumes "bufferOf s (req_fh rd) = Some arr"
  shows "read getData setData rd s =
     (Inr (no_fields\<lparr>res_buf :=
        Some (fromCharCode (take (req_size rd) (drop (req_offset rd) arr)))\<rparr>), s)"
  using assms
  by (auto simp: bufferOf_Some read_def getObjectForHandle_def sliceArr_def)

lemma read_closed:
  "store s (req_fh rd) = None \<Longrightarrow> read getData setData rd s = (Inl TypeError, s)"
  by (simp add: read_def getObjectForHandle_def)

lemma writeBuffer_result:
  assumes "store s (req_fh req) = Some (path, a)"
  shows "\<exists>a' s'. writeBuffer req s = Inr (a', s')
           \<and> store s' (req_fh req) = Some (path, a')
           \<and> heap s' a' = written (heap s a) (req_offset req) (stringToUtf8Array (req_buf req))
           \<and> world s' = world s \<and> calls s' = calls s \<and> nextHandle s' = nextHandle s
           \<and> dom (store s') = dom (store s)"
proof (cases "length (heap s a) < req_offset req + length (stringToUtf8Array (req_buf req))")
  case True
  then show ?thesis using assms
    by (auto simp: writeBuffer_def getObjectForHandle_def Let_def grow_copy alloc_def
          setObjectForHandle_def grow_set written_def)
next
  case False
  then show ?thesis using assms
    by (auto simp: writeBuffer_def getObjectForHandle_def Let_def typedSet_def written_def)
qed

lemma writeBuffer_closed:
  "store s (req_fh req) = None \<Longrightarrow> writeBuffer req s = Inl TypeError"
  by (simp add: writeBuffer_def getObjectForHandle_def)

lemma utf8_brackets: "stringToUtf8Array (js ''[]'') = [0x5B, 0x5D]"
  by code_simp

lemma utf8_hello: "stringToUtf8Array (js ''hello'') = [0x68, 0x65, 0x6C, 0x6C, 0x6F]"
  by code_simp

lemma utf8_X: "stringToUtf8Array (js ''X'') = [0x58]"
  by code_simp

lemma utf8_empty: "stringToUtf8Array [] = []"
  by (simp add: stringToUtf8Array_def)

lemma ascii_unit:
  assumes "c < 0x80"
  shows "scalarOfUnit c = unat c \<and> \<not> isHighSurrogate c \<and> utf8Bytes (unat c) = [ucast c]"
proof -
  have small: "unat c < 128"
    using assms by (simp add: word_less_nat_alt)
  then have "\<not> isHighSurrogate c" "\<not> isLowSurrogate c"
    by (auto simp: isHighSurrogate_def isLowSurrogate_def word_le_nat_alt)
  then show ?thesis
    using small by (simp add: scalarOfUnit_def utf8Bytes_def)
qed

lemma utf8_ascii:
  "\<forall>c \<in> set str. c < 0x80 \<Longrightarrow> stringToUtf8Array str = map ucast str"
proof (induction str rule: codePoints.induct)
  case 1
  then show ?case by (simp add: stringToUtf8Array_def)
next
  case (2 c)
  then show ?case by (simp add: stringToUtf8Array_def ascii_unit)
next
  case (3 c d cs)
  then have "stringToUtf8Array (d # cs) = map ucast (d # cs)" and "c < 0x80"
    by (simp_all add: ascii_unit)
  then show ?case
    by (simp add: stringToUtf8Array_def ascii_unit)
qed

subsection \<open>\<^verbatim>\<open>getattr\<close>\<close>

text \<open>
  Claim C7. Every call of \<^verbatim>\<open>getattr\<close> on a content route calls the read-accessor (once:
  the call log grows by that one call). If the accessor returns \<^verbatim>\<open>undefined\<close> the
  operation fails with \<open>ENOENT\<close>. Otherwise it returns the mode of a regular file with
  the read bits \<^verbatim>\<open>0444\<close> set, the write bits \<^verbatim>\<open>0222\<close> set exactly when a write-accessor
  was given (\<^verbatim>\<open>0100444\<close> is \<open>0x8124\<close>, \<^verbatim>\<open>0100666\<close> is \<open>0x81B6\<close>), link count 1, and as size
  the number of bytes of the contents, which for a string is the length of its UTF-8
  encoding.
\<close>

theorem getattr_metadata:
  assumes "getData req (world s) = (Inr data, w)"
    and "getattr getData setData req s = (r, s')"
    and "mode = (if setData = None then 0x8124 else 0x81B6)"
  shows "s' = s\<lparr>world := w, calls := calls s @ [GetData req]\<rparr>
       \<and> (data = Undefined \<longrightarrow> r = Inl (UnixError ENOENT))
       \<and> (\<forall>arr. toUtf8Array data = Some arr \<longrightarrow>
            r = Inr (no_fields\<lparr>st_mode := Some mode, st_nlink := Some 1,
                                st_size := Some (length arr)\<rparr>))
       \<and> (\<forall>str. data = Str str \<longrightarrow>
            r = Inr (no_fields\<lparr>st_mode := Some mode, st_nlink := Some 1,
                                st_size := Some (length (stringToUtf8Array str))\<rparr>))
       \<and> mode AND S_IFMT = S_IFREG
       \<and> mode AND 0x124 = 0x124
       \<and> (mode AND 0x92 = 0x92 \<longleftrightarrow> setData \<noteq> None)
       \<and> (mode AND 0x92 = 0 \<longleftrightarrow> setData = None)"
  using assms
  by (auto simp: getattr_def callGetData_def toUtf8Array_def S_IFREG_def S_IFMT_def
           split: jsdata.splits)

theorem getattr_metadata_witness:
  "liveText (message 1 Getattr (js ''/tabs.json'')) (world (initial (js ''[]''))) =
     (Inr (Str (js ''[]'')), js ''[]'')
   \<and> fst (getattr liveText None (message 1 Getattr (js ''/tabs.json'')) (initial (js ''[]''))) =
       Inr (no_fields\<lparr>st_mode := Some 0x8124, st_nlink := Some 1, st_size := Some 2\<rparr>)"
proof -
  have h1: "liveText (message 1 Getattr (js ''/tabs.json'')) (world (initial (js ''[]''))) =
     (Inr (Str (js ''[]'')), js ''[]'')"
    by (simp add: liveText_def initial_def)
  have h2: "getattr liveText None (message 1 Getattr (js ''/tabs.json'')) (initial (js ''[]'')) =
     (fst (getattr liveText None (message 1 Getattr (js ''/tabs.json'')) (initial (js ''[]''))),
      snd (getattr liveText None (message 1 Getattr (js ''/tabs.json'')) (initial (js ''[]''))))"
    by simp
  have h3: "(0x8124::nat) = (if (None :: jsstring setter option) = None then 0x8124 else 0x81B6)"
    by simp
  from getattr_metadata [OF h1 h2 h3] h1 show ?thesis
    by (simp add: utf8_brackets)
qed

subsection \<open>\<^verbatim>\<open>write\<close>\<close>

text \<open>
  What \<^verbatim>\<open>write\<close> does, in terms of \<open>bufarr\<close>, the bytes it writes: the encoding of \<^verbatim>\<open>buf\<close>
  that the source computes, whose length is the number it adds to \<^verbatim>\<open>offset\<close> and returns
  (for an ASCII \<^verbatim>\<open>buf\<close> these are the code units of \<^verbatim>\<open>buf\<close>, one byte each). If
  \<open>offset + length bufarr\<close> exceeds the length of the handle's buffer, the buffer becomes
  exactly that long: the old bytes before \<open>offset\<close>, zeros from the old end up to
  \<open>offset\<close>, then \<open>bufarr\<close>. Otherwise \<open>bufarr\<close> replaces the bytes at \<open>offset\<close> and the
  rest stays. In both cases the write-accessor is called once, with the decoding of the
  whole new buffer, and the result is \<open>length bufarr\<close>.
\<close>

lemma write_h_behaviour:
  assumes "bufferOf s (req_fh req) = Some arr"
    and "bufarr = stringToUtf8Array (req_buf req)"
    and "offset = req_offset req"
    and "final = (if length arr < offset + length bufarr
                  then take offset arr @ replicate (offset - length arr) 0 @ bufarr
                  else take offset arr @ bufarr @ drop (offset + length bufarr) arr)"
    and "setData req (utf8ArrayToString final) (world s) = (Inr (), w)"
    and "write_h getData (Some setData) req s = (r, s')"
  shows "r = Inr (no_fields\<lparr>res_size := Some (length bufarr)\<rparr>)
       \<and> bufferOf s' (req_fh req) = Some final
       \<and> (length arr < offset + length bufarr \<longrightarrow> length final = offset + length bufarr)
       \<and> (offset + length bufarr \<le> length arr \<longrightarrow> length final = length arr)
       \<and> sliceArr final offset (offset + length bufarr) = bufarr
       \<and> calls s' = calls s @ [SetData req (utf8ArrayToString final)]
       \<and> world s' = w
       \<and> ((\<forall>c \<in> set (req_buf req). c < 0x80) \<longrightarrow>
            bufarr = map ucast (req_buf req) \<and> length bufarr = length (req_buf req))"
proof -
  obtain path a where sa: "store s (req_fh req) = Some (path, a)" and ha: "heap s a = arr"
    using assms(1) by (auto simp: bufferOf_Some)
  have fin: "final = written arr offset bufarr"
    using assms(4) by (simp add: written_def)
  obtain a' s1 where wb: "writeBuffer req s = Inr (a', s1)"
    and st: "store s1 (req_fh req) = Some (path, a')"
    and hp: "heap s1 a' = final"
    and w1: "world s1 = world s" and c1: "calls s1 = calls s"
    using writeBuffer_result [OF sa] ha assms(2,3) fin by metis
  have "write_h getData (Some setData) req s =
          (Inr (no_fields\<lparr>res_size := Some (length bufarr)\<rparr>),
           s1\<lparr>world := w, calls := calls s1 @ [SetData req (utf8ArrayToString final)]\<rparr>)"
    using wb hp w1 assms(2,5) by (simp add: write_h_def callSetData_def)
  then have r: "r = Inr (no_fields\<lparr>res_size := Some (length bufarr)\<rparr>)"
    and s': "s' = s1\<lparr>world := w, calls := calls s1 @ [SetData req (utf8ArrayToString final)]\<rparr>"
    using assms(6) by simp_all
  have len: "length final = max (length arr) (offset + length bufarr)"
    using fin by (simp add: length_written)
  have sl: "sliceArr final offset (offset + length bufarr) = bufarr"
    using fin by (simp add: written_slice)
  have ascii: "(\<forall>c \<in> set (req_buf req). c < 0x80) \<longrightarrow>
            bufarr = map ucast (req_buf req) \<and> length bufarr = length (req_buf req)"
    using assms(2) by (simp add: utf8_ascii)
  have "bufferOf s' (req_fh req) = Some final"
    using s' st hp by (simp add: bufferOf_def)
  then show ?thesis using r s' c1 len sl ascii by simp
qed

text \<open>
  The example of the specification: \<^verbatim>\<open>X\<close> written at offset 5 into a handle opened on
  the empty string leaves the six bytes \<^verbatim>\<open>\0\0\0\0\0X\<close> and returns 1.
\<close>

lemma decode_zeros_X: "utf8ArrayToString [0, 0, 0, 0, 0, 0x58] = [0, 0, 0, 0, 0, 0x58]"
  by (simp add: utf8ArrayToString_def stripBOM_def utf16Units_def)

lemma write_X_beyond_end:
  "bufferOf (snd (open_h liveText (Some storeText) (message 1 Open (js ''/f'')) (initial [])))
      (req_fh ((message 2 Write (js ''/f''))\<lparr>req_fh := 1, req_offset := 5, req_buf := js ''X''\<rparr>))
     = Some []
   \<and> fst (write_h liveText (Some storeText)
        ((message 2 Write (js ''/f''))\<lparr>req_fh := 1, req_offset := 5, req_buf := js ''X''\<rparr>)
        (snd (open_h liveText (Some storeText) (message 1 Open (js ''/f'')) (initial []))))
      = Inr (no_fields\<lparr>res_size := Some 1\<rparr>)
   \<and> bufferOf (snd (write_h liveText (Some storeText)
           ((message 2 Write (js ''/f''))\<lparr>req_fh := 1, req_offset := 5, req_buf := js ''X''\<rparr>)
           (snd (open_h liveText (Some storeText) (message 1 Open (js ''/f'')) (initial []))))) 1
      = Some [0, 0, 0, 0, 0, 0x58]"
proof -
  let ?s = "snd (open_h liveText (Some storeText) (message 1 Open (js ''/f'')) (initial []))"
  let ?req = "(message 2 Write (js ''/f''))\<lparr>req_fh := 1, req_offset := 5, req_buf := js ''X''\<rparr>"
  let ?wr = "write_h liveText (Some storeText) ?req ?s"
  have h1: "bufferOf ?s (req_fh ?req) = Some []"
    by (simp add: open_h_def callGetData_def liveText_def initial_def toUtf8Array_def utf8_empty
          alloc_def storeObject_def bufferOf_def message_def)
  have h2: "[0x58] = stringToUtf8Array (req_buf ?req)"
    by (simp add: message_def utf8_X)
  have h3: "(5::nat) = req_offset ?req"
    by (simp add: message_def)
  have h4: "[0, 0, 0, 0, 0, 0x58] =
      (if length ([]::bytes) < 5 + length [0x58::8 word]
       then take 5 [] @ replicate (5 - length ([]::bytes)) 0 @ [0x58]
       else take 5 [] @ [0x58] @ drop (5 + length [0x58::8 word]) [])"
    by (simp add: eval_nat_numeral)
  have h5: "storeText ?req (utf8ArrayToString [0, 0, 0, 0, 0, 0x58]) (world ?s) =
      (Inr (), [0, 0, 0, 0, 0, 0x58])"
    by (simp add: storeText_def decode_zeros_X)
  have h6: "?wr = (fst ?wr, snd ?wr)"
    by simp
  from write_h_behaviour [OF h1 h2 h3 h4 h5 h6] h1 show ?thesis
    by (simp add: message_def)
qed

subsection \<open>\<^verbatim>\<open>truncate\<close>\<close>


lemma truncate_cache:
  assumes "getData req (world s) = (Inr data, w1)"
    and "toUtf8Array data = Some arr"
    and "s3 = setObjectForPath (req_path req) (nextAddr s)
           (s\<lparr>world := w1, calls := calls s @ [GetData req],
              heap := (heap s)(nextAddr s := resized arr (req_size req)),
              nextAddr := Suc (nextAddr s)\<rparr>)"
  shows "truncate_h getData setData req s =
           (case callSetData setData req (utf8ArrayToString (resized arr (req_size req))) s3 of
              (Inl e, s4) \<Rightarrow> (Inl e, s4)
            | (Inr u, s4) \<Rightarrow> (Inr no_fields, s4))"
proof (cases "req_size req = length arr")
  case True
  then show ?thesis using assms
    by (simp add: truncate_h_def callGetData_def alloc_def resized_same_length)
next
  case False
  then show ?thesis using assms
    by (simp add: truncate_h_def callGetData_def alloc_def resize_copy)
qed




text \<open>
  After \<^verbatim>\<open>truncate\<close> the handles of the path hold one and the same array. A later
  \<^verbatim>\<open>write\<close> through one of them that does not grow the buffer changes that array in
  place, and so shows under the other handle too: \<^verbatim>\<open>/f\<close> is truncated to its own
  length, \<^verbatim>\<open>X\<close> is written at offset 0 through handle 1, and handle 2 holds \<^verbatim>\<open>Xello\<close>.
\<close>

lemma shared_after_truncate:
  "bufferOf
     (snd (write_h liveText (Some storeText)
        ((message 4 Write (js ''/f''))\<lparr>req_fh := 1, req_buf := js ''X''\<rparr>)
        (snd (truncate_h liveText (Some storeText)
           ((message 3 Truncate (js ''/f''))\<lparr>req_size := 5\<rparr>) twoHandles)))) 2
   = Some [0x58, 0x65, 0x6C, 0x6C, 0x6F]"
proof -
  let ?tr = "(message 3 Truncate (js ''/f''))\<lparr>req_size := 5\<rparr>"
  let ?s3 = "setObjectForPath (req_path ?tr) (nextAddr twoHandles)
           (twoHandles\<lparr>world := js ''hello'', calls := calls twoHandles @ [GetData ?tr],
              heap := (heap twoHandles)
                (nextAddr twoHandles := resized [0x68, 0x65, 0x6C, 0x6C, 0x6F] (req_size ?tr)),
              nextAddr := Suc (nextAddr twoHandles)\<rparr>)"
  have "truncate_h liveText (Some storeText) ?tr twoHandles =
      (case callSetData (Some storeText) ?tr
              (utf8ArrayToString (resized [0x68, 0x65, 0x6C, 0x6C, 0x6F] (req_size ?tr))) ?s3 of
         (Inl e, s4) \<Rightarrow> (Inl e, s4) | (Inr u, s4) \<Rightarrow> (Inr no_fields, s4))"
    by (rule truncate_cache [where data = "Str (js ''hello'')" and ?w1.0 = "js ''hello''"])
       (simp_all add: liveText_def twoHandles_def toUtf8Array_def utf8_hello)
  then have st: "store (snd (truncate_h liveText (Some storeText) ?tr twoHandles)) =
        [1 \<mapsto> (js ''/f'', 2), 2 \<mapsto> (js ''/f'', 2)]"
    and hp: "heap (snd (truncate_h liveText (Some storeText) ?tr twoHandles)) 2 =
        [0x68, 0x65, 0x6C, 0x6C, 0x6F]"
    by (auto simp: callSetData_def storeText_def setObjectForPath_def twoHandles_def message_def
          resized_def fun_eq_iff)
  show ?thesis
    using st hp
    by (simp add: write_h_def writeBuffer_def getObjectForHandle_def message_def utf8_X Let_def
          typedSet_def callSetData_def storeText_def bufferOf_def)
qed

subsection \<open>The dispatcher: one call of \<^verbatim>\<open>onMessage\<close>\<close>

lemma finish_error:
  "resp_error (finish req outcome) \<noteq> None \<Longrightarrow> resp_fields (finish req outcome) = no_fields"
  by (auto simp: finish_def errorResponse_def okResponse_def split: sum.splits option.splits)

lemma finish_id: "resp_id (finish req outcome) = req_id req"
  by (auto simp: finish_def errorResponse_def okResponse_def split: sum.splits option.splits)

lemma finish_Inl: "finish req (Inl e) = errorResponse req e"
  by (simp add: finish_def)

lemma run_timed_out:
  "timeout p = Fired \<Longrightarrow> didTimeout p \<Longrightarrow>
   port (run req evs p) = port p \<and> timeout (run req evs p) = Fired"
proof (induction evs arbitrary: p)
  case Nil
  then show ?case by simp
next
  case (Cons ev evs)
  have "timeout (step req ev p) = Fired \<and> didTimeout (step req ev p)
        \<and> port (step req ev p) = port p"
    using Cons.prems by (cases ev) (simp_all add: timerFires_def handlerSettles_def)
  then show ?case using Cons.IH [of "step req ev p"] by simp
qed

lemma run_answered:
  "timeout p = Cleared \<Longrightarrow> settled p \<Longrightarrow> run req evs p = p"
proof (induction evs arbitrary: p)
  case Nil
  then show ?case by simp
next
  case (Cons ev evs)
  have "step req ev p = p"
    using Cons.prems by (cases ev) (simp_all add: timerFires_def handlerSettles_def)
  then show ?case using Cons by simp
qed

lemma run_timer_first:
  "port (run req evs (timerFires req armed)) = [timeoutResponse req]"
  using run_timed_out [of "timerFires req armed" req evs]
  by (simp add: timerFires_def armed_def)

lemma run_handler_first:
  "run req evs (handlerSettles req outcome armed) =
     \<lparr>didTimeout = False, timeout = Cleared, settled = True, port = [finish req outcome]\<rparr>"
  using run_answered [of "handlerSettles req outcome armed" req evs]
  by (simp add: handlerSettles_def armed_def)

lemma run_port_cases:
  "port (run req evs armed) = [] \<or> port (run req evs armed) = [timeoutResponse req]
   \<or> (\<exists>outcome. port (run req evs armed) = [finish req outcome])"
proof (cases evs)
  case Nil
  then show ?thesis by (simp add: armed_def)
next
  case (Cons ev rest)
  then show ?thesis
    by (cases ev) (auto simp: run_timer_first run_handler_first)
qed

text \<open>
  Claim C5. Whatever happens to one call of \<^verbatim>\<open>onMessage\<close>, in whatever order, it posts at
  most one message, and exactly one as soon as anything has happened; every message
  carries the id of the request. If the timer (set for 1000 ms) runs first, the one
  message is the \<open>ETIMEDOUT\<close> response, and the outcome of the operation, when it comes,
  is not posted. If the operation settles first, the timer is cleared and the one
  message is the response made from its outcome.
\<close>

theorem one_response_per_request:
  "length (port (run req evs armed)) \<le> 1
   \<and> (evs \<noteq> [] \<longrightarrow> length (port (run req evs armed)) = 1)
   \<and> (\<forall>m \<in> set (port (run req evs armed)). resp_id m = req_id req)
   \<and> timeout armed = Armed 1000
   \<and> port (run req (TimerFires # evs) armed) =
       [\<lparr>resp_id = req_id req, resp_op = req_op req, resp_error = Some ETIMEDOUT,
         resp_fields = no_fields\<rparr>]
   \<and> port (run req (TimerFires # evs @ HandlerSettles outcome # evs') armed) =
       port (run req [TimerFires] armed)
   \<and> port (run req (HandlerSettles outcome # evs) armed) = [finish req outcome]
   \<and> timeout (run req (HandlerSettles outcome # evs) armed) = Cleared"
proof -
  have "length (port (run req evs armed)) \<le> 1"
    using run_port_cases [of req evs] by auto
  moreover have "evs \<noteq> [] \<longrightarrow> length (port (run req evs armed)) = 1"
  proof (cases evs)
    case Nil
    then show ?thesis by simp
  next
    case (Cons ev rest)
    then show ?thesis
      by (cases ev) (simp_all add: run_timer_first run_handler_first)
  qed
  moreover have "\<forall>m \<in> set (port (run req evs armed)). resp_id m = req_id req"
    using run_port_cases [of req evs] by (auto simp: timeoutResponse_def finish_id)
  moreover have "timeout armed = Armed 1000"
    by (simp add: armed_def)
  moreover have "port (run req [] (timerFires req armed)) = [timeoutResponse req]"
    by (rule run_timer_first)
  ultimately show ?thesis
    by (simp add: run_timer_first run_handler_first timeoutResponse_def)
qed

text \<open>
  A handler that settles with a result after the timer ran: the only message is the
  timeout.
\<close>

theorem one_response_per_request_witness:
  "[TimerFires, HandlerSettles (Inr no_fields)] \<noteq> []
   \<and> port (run (message 7 Read (js ''/f'')) [TimerFires, HandlerSettles (Inr no_fields)] armed) =
       [\<lparr>resp_id = 7, resp_op = Read, resp_error = Some 110, resp_fields = no_fields\<rparr>]"
  using one_response_per_request [of "message 7 Read (js ''/f'')" "[HandlerSettles (Inr no_fields)]"
      "Inr no_fields" "[]"]
  by (simp add: message_def ETIMEDOUT_def)

text \<open>
  Claim C8. Whatever the route resolution or the operation throws is caught: a
  \<^verbatim>\<open>UnixError\<close> becomes a response with its error number, anything else one with
  \<open>EIO\<close>, and \<^verbatim>\<open>onMessage\<close> goes on to post that response and returns. A message that
  carries an error number has no result field, whatever happened to the call.
\<close>

theorem failures_become_error_responses:
  "finish req (Inl (UnixError err)) =
     \<lparr>resp_id = req_id req, resp_op = req_op req, resp_error = Some err, resp_fields = no_fields\<rparr>
   \<and> ((\<forall>err. e \<noteq> UnixError err) \<longrightarrow>
        finish req (Inl e) =
          \<lparr>resp_id = req_id req, resp_op = req_op req, resp_error = Some EIO,
            resp_fields = no_fields\<rparr>)
   \<and> (tryMatchRoute Routes (req_path req) = Inl e \<longrightarrow>
        callRoute Routes req s = (Inl e, s))
   \<and> (decodeRequest msg = Inr req \<and> callRoute Routes req s = (Inl e, s') \<longrightarrow>
        onMessage Routes msg s = (Inr [finish req (Inl e)], s'))
   \<and> (decodeRequest msg = Inr req \<longrightarrow>
        (\<exists>m. fst (onMessage Routes msg s) = Inr [m]))
   \<and> (resp_error (finish req outcome) \<noteq> None \<longrightarrow> resp_fields (finish req outcome) = no_fields)
   \<and> (\<forall>m \<in> set (port (run req evs armed)). resp_error m \<noteq> None \<longrightarrow> resp_fields m = no_fields)"
proof -
  have typed: "finish req (Inl (UnixError err)) =
     \<lparr>resp_id = req_id req, resp_op = req_op req, resp_error = Some err, resp_fields = no_fields\<rparr>"
    by (simp add: finish_def errorResponse_def)
  have other: "(\<forall>err. e \<noteq> UnixError err) \<longrightarrow>
        finish req (Inl e) =
          \<lparr>resp_id = req_id req, resp_op = req_op req, resp_error = Some EIO,
            resp_fields = no_fields\<rparr>"
    by (cases e) (simp_all add: finish_def errorResponse_def)
  have resolve: "tryMatchRoute Routes (req_path req) = Inl e \<longrightarrow> callRoute Routes req s = (Inl e, s)"
    by (simp add: callRoute_def)
  have caught: "decodeRequest msg = Inr req \<and> callRoute Routes req s = (Inl e, s') \<longrightarrow>
        onMessage Routes msg s = (Inr [finish req (Inl e)], s')"
    by (simp add: onMessage_def handlerSettles_def armed_def)
  have alive: "decodeRequest msg = Inr req \<longrightarrow> (\<exists>m. fst (onMessage Routes msg s) = Inr [m])"
    by (simp add: onMessage_def handlerSettles_def armed_def split: prod.splits)
  have posted: "\<forall>m \<in> set (port (run req evs armed)). resp_error m \<noteq> None \<longrightarrow> resp_fields m = no_fields"
    using run_port_cases [of req evs] by (auto simp: timeoutResponse_def finish_error)
  show ?thesis
    using typed other resolve caught alive posted finish_error [of req outcome] by blast
qed

lemma not_appleDouble_missing: "\<not> isAppleDouble (js ''/missing.json'')"
  by (simp add: isAppleDouble_def js_def)

lemma not_appleDouble_f: "\<not> isAppleDouble (js ''/f'')"
  by (simp add: isAppleDouble_def js_def)

lemma not_appleDouble_tabs: "\<not> isAppleDouble (js ''/tabs.json'')"
  by (simp add: isAppleDouble_def js_def)

lemma resolve_literal:
  "\<not> isAppleDouble path \<Longrightarrow>
   tryMatchRoute [literalRoute path h] path = Inr (literalRoute path h, [])"
  by (simp add: tryMatchRoute_def sortedRoutes_def literalRoute_def)

text \<open>
  The example of the specification: \<^verbatim>\<open>open\<close> of a path whose read-accessor returns
  \<^verbatim>\<open>undefined\<close> is answered with \<open>ENOENT\<close>.
\<close>

theorem failures_become_error_responses_witness:
  "decodeRequest (message 2 Open (js ''/missing.json'')) = Inr (message 2 Open (js ''/missing.json''))
   \<and> fst (callRoute missingRoutes (message 2 Open (js ''/missing.json'')) (initial [])) =
       Inl (UnixError ENOENT)
   \<and> fst (onMessage missingRoutes (message 2 Open (js ''/missing.json'')) (initial [])) =
       Inr [\<lparr>resp_id = 2, resp_op = Open, resp_error = Some 2, resp_fields = no_fields\<rparr>]"
proof -
  let ?m = "message 2 Open (js ''/missing.json'')"
  let ?c = "callRoute missingRoutes ?m (initial [])"
  have h1: "decodeRequest ?m = Inr ?m"
    by (simp add: decodeRequest_def message_def)
  have tr: "tryMatchRoute missingRoutes (js ''/missing.json'') =
      Inr (literalRoute (js ''/missing.json'') (makeRouteWithContents noFile None), [])"
    by (simp add: missingRoutes_def resolve_literal not_appleDouble_missing)
  have h2a: "fst ?c = Inl (UnixError ENOENT)"
    using tr
    by (simp add: callRoute_def message_def literalRoute_def makeRouteWithContents_def
          open_h_def callGetData_def noFile_def)
  then have h2: "?c = (Inl (UnixError ENOENT), snd ?c)"
    by (simp add: prod_eq_iff)
  from failures_become_error_responses [where req = ?m and msg = ?m and e = "UnixError ENOENT"
      and err = ENOENT and Routes = missingRoutes and s = "initial []" and s' = "snd ?c"]
    h1 h2 h2a
  show ?thesis
    by (simp add: message_def ENOENT_def)
qed



subsection \<open>Route resolution\<close>

lemma firstMatch_Inr:
  "firstMatch rs path = Inr (r, vars) \<Longrightarrow>
   \<exists>pre post. rs = pre @ r # post \<and> (\<forall>r' \<in> set pre. match r' path = None)
              \<and> match r path = Some vars"
proof (induction rs)
  case Nil
  then show ?case by simp
next
  case (Cons a rs)
  show ?case
  proof (cases "match a path")
    case None
    then obtain pre post where "rs = pre @ r # post" "\<forall>r' \<in> set pre. match r' path = None"
      "match r path = Some vars"
      using Cons by auto
    then have "a # rs = (a # pre) @ r # post \<and> (\<forall>r' \<in> set (a # pre). match r' path = None)
        \<and> match r path = Some vars"
      using None by simp
    then show ?thesis by blast
  next
    case (Some v)
    then have "a # rs = [] @ r # rs \<and> (\<forall>r' \<in> set []. match r' path = None)
        \<and> match r path = Some vars"
      using Cons.prems by simp
    then show ?thesis by blast
  qed
qed

lemma firstMatch_Inl:
  "firstMatch rs path = Inl e \<longleftrightarrow> e = UnixError ENOENT \<and> (\<forall>r \<in> set rs. match r path = None)"
  by (induction rs) (auto split: option.splits)

lemma sorted_prefix_least:
  assumes "sort_key f xs = pre @ r # post"
  shows "\<forall>x \<in> set post. f r \<le> f x"
proof -
  have "sorted (map f (pre @ r # post))"
    using assms sorted_sort_key [of f xs] by simp
  then show ?thesis
    by (simp add: sorted_append)
qed

lemma resolved_route:
  assumes "\<not> isAppleDouble path" and "tryMatchRoute Routes path = Inr (r, vars)"
  shows "r \<in> set Routes \<and> match r path = Some vars
       \<and> (\<exists>pre post. sortedRoutes Routes = pre @ r # post
             \<and> (\<forall>r' \<in> set pre. match r' path = None))
       \<and> (\<forall>r' \<in> set Routes. match r' path \<noteq> None \<longrightarrow> matchVarCount r \<le> matchVarCount r')"
proof -
  have fm: "firstMatch (sortedRoutes Routes) path = Inr (r, vars)"
    using assms by (simp add: tryMatchRoute_def)
  then obtain pre post where sp: "sortedRoutes Routes = pre @ r # post"
    and none: "\<forall>r' \<in> set pre. match r' path = None" and m: "match r path = Some vars"
    using firstMatch_Inr by blast
  have sets: "set Routes = set pre \<union> {r} \<union> set post"
  proof -
    have "set Routes = set (sortedRoutes Routes)"
      by (simp add: sortedRoutes_def)
    then show ?thesis using sp by auto
  qed
  have least: "\<forall>x \<in> set post. matchVarCount r \<le> matchVarCount x"
    using sp sorted_prefix_least [of matchVarCount Routes pre r post] by (simp add: sortedRoutes_def)
  have "\<forall>r' \<in> set Routes. match r' path \<noteq> None \<longrightarrow> matchVarCount r \<le> matchVarCount r'"
    using sets none least by auto
  then show ?thesis using sets sp none m by blast
qed

lemma resolved_member:
  "tryMatchRoute Routes path = Inr (r, vars) \<Longrightarrow> r \<in> set Routes"
  using resolved_route [of path Routes r vars]
  by (cases "isAppleDouble path") (simp_all add: tryMatchRoute_def)

text \<open>
  Claim C6, as amended. A path whose last segment is \<^verbatim>\<open>._\<close> followed by at least one
  character is refused with \<open>ENOTSUP\<close> before any route is looked at. For every other
  path, resolution goes through the routes in ascending order of variable count (a
  stable sort of the registered routes) and returns the first route that matches, with
  the bindings of that match: the route returned is registered, matches, and no
  registered route that matches has fewer variables. So when registered routes \<open>R1\<close>
  and \<open>R2\<close>, with one variable more, both match, \<open>R2\<close> is never returned, and \<open>R1\<close> is
  returned when every other registered route that matches has more variables than
  \<open>R1\<close>. When no registered route matches, resolution fails with \<open>ENOENT\<close>.
\<close>

theorem resolution_most_specific_first:
  "(isAppleDouble path \<longrightarrow> tryMatchRoute Routes path = Inl (UnixError ENOTSUP))
   \<and> (\<not> isAppleDouble path \<longrightarrow>
        tryMatchRoute Routes path = firstMatch (sort_key matchVarCount Routes) path
      \<and> ((\<forall>r \<in> set Routes. match r path = None) \<longleftrightarrow>
           tryMatchRoute Routes path = Inl (UnixError ENOENT))
      \<and> ((\<exists>r \<in> set Routes. match r path \<noteq> None) \<longleftrightarrow>
           (\<exists>r vars. tryMatchRoute Routes path = Inr (r, vars)))
      \<and> (\<forall>r vars. tryMatchRoute Routes path = Inr (r, vars) \<longrightarrow>
            r \<in> set Routes \<and> match r path = Some vars
          \<and> (\<exists>pre post. sortedRoutes Routes = pre @ r # post
                \<and> (\<forall>r' \<in> set pre. match r' path = None))
          \<and> (\<forall>r' \<in> set Routes. match r' path \<noteq> None \<longrightarrow> matchVarCount r \<le> matchVarCount r'))
      \<and> (\<forall>R1 R2. R1 \<in> set Routes \<and> R2 \<in> set Routes
            \<and> match R1 path \<noteq> None \<and> match R2 path \<noteq> None
            \<and> matchVarCount R2 = matchVarCount R1 + 1 \<longrightarrow>
            (\<forall>vars. tryMatchRoute Routes path \<noteq> Inr (R2, vars))
          \<and> ((\<forall>r \<in> set Routes. r \<noteq> R1 \<and> match r path \<noteq> None \<longrightarrow>
                  matchVarCount R1 < matchVarCount r) \<longrightarrow>
               (\<exists>vars. tryMatchRoute Routes path = Inr (R1, vars) \<and> match R1 path = Some vars))))"
proof (cases "isAppleDouble path")
  case True
  then show ?thesis by (simp add: tryMatchRoute_def)
next
  case False
  have unfold: "tryMatchRoute Routes path = firstMatch (sort_key matchVarCount Routes) path"
    using False by (simp add: tryMatchRoute_def sortedRoutes_def)
  have none: "(\<forall>r \<in> set Routes. match r path = None) \<longleftrightarrow>
           tryMatchRoute Routes path = Inl (UnixError ENOENT)"
    using unfold firstMatch_Inl [of "sort_key matchVarCount Routes" path "UnixError ENOENT"]
    by simp
  have some: "(\<exists>r \<in> set Routes. match r path \<noteq> None) \<longleftrightarrow>
           (\<exists>r vars. tryMatchRoute Routes path = Inr (r, vars))"
  proof
    assume "\<exists>r \<in> set Routes. match r path \<noteq> None"
    then have "tryMatchRoute Routes path \<noteq> Inl (UnixError ENOENT)"
      using none by auto
    moreover have "\<And>e. tryMatchRoute Routes path = Inl e \<Longrightarrow> e = UnixError ENOENT"
      using unfold firstMatch_Inl [of "sort_key matchVarCount Routes" path] by simp
    ultimately show "\<exists>r vars. tryMatchRoute Routes path = Inr (r, vars)"
      by (cases "tryMatchRoute Routes path") auto
  next
    assume "\<exists>r vars. tryMatchRoute Routes path = Inr (r, vars)"
    then show "\<exists>r \<in> set Routes. match r path \<noteq> None"
      using resolved_route [OF False] by fastforce
  qed
  have found: "\<forall>r vars. tryMatchRoute Routes path = Inr (r, vars) \<longrightarrow>
            r \<in> set Routes \<and> match r path = Some vars
          \<and> (\<exists>pre post. sortedRoutes Routes = pre @ r # post
                \<and> (\<forall>r' \<in> set pre. match r' path = None))
          \<and> (\<forall>r' \<in> set Routes. match r' path \<noteq> None \<longrightarrow> matchVarCount r \<le> matchVarCount r')"
    using resolved_route [OF False] by blast
  have pair: "\<forall>R1 R2. R1 \<in> set Routes \<and> R2 \<in> set Routes
            \<and> match R1 path \<noteq> None \<and> match R2 path \<noteq> None
            \<and> matchVarCount R2 = matchVarCount R1 + 1 \<longrightarrow>
            (\<forall>vars. tryMatchRoute Routes path \<noteq> Inr (R2, vars))
          \<and> ((\<forall>r \<in> set Routes. r \<noteq> R1 \<and> match r path \<noteq> None \<longrightarrow>
                  matchVarCount R1 < matchVarCount r) \<longrightarrow>
               (\<exists>vars. tryMatchRoute Routes path = Inr (R1, vars) \<and> match R1 path = Some vars))"
  proof (intro allI impI, elim conjE)
    fix R1 R2
    assume R1: "R1 \<in> set Routes" and R2: "R2 \<in> set Routes"
      and m1: "match R1 path \<noteq> None" and m2: "match R2 path \<noteq> None"
      and k: "matchVarCount R2 = matchVarCount R1 + 1"
    have notR2: "\<forall>vars. tryMatchRoute Routes path \<noteq> Inr (R2, vars)"
    proof (intro allI notI)
      fix vars
      assume "tryMatchRoute Routes path = Inr (R2, vars)"
      then have "matchVarCount R2 \<le> matchVarCount R1"
        using found R1 m1 by blast
      then show False using k by simp
    qed
    have isR1: "(\<forall>r \<in> set Routes. r \<noteq> R1 \<and> match r path \<noteq> None \<longrightarrow>
                  matchVarCount R1 < matchVarCount r) \<longrightarrow>
               (\<exists>vars. tryMatchRoute Routes path = Inr (R1, vars) \<and> match R1 path = Some vars)"
    proof
      assume only: "\<forall>r \<in> set Routes. r \<noteq> R1 \<and> match r path \<noteq> None \<longrightarrow>
                  matchVarCount R1 < matchVarCount r"
      obtain r vars where res: "tryMatchRoute Routes path = Inr (r, vars)"
        using some R1 m1 by blast
      then have r: "r \<in> set Routes" "match r path = Some vars"
        "matchVarCount r \<le> matchVarCount R1"
        using found R1 m1 by blast+
      have "r = R1"
      proof (rule ccontr)
        assume "r \<noteq> R1"
        then have "matchVarCount R1 < matchVarCount r" using only r by simp
        then show False using r(3) by simp
      qed
      then show "\<exists>vars. tryMatchRoute Routes path = Inr (R1, vars) \<and> match R1 path = Some vars"
        using res r(2) by blast
    qed
    show "(\<forall>vars. tryMatchRoute Routes path \<noteq> Inr (R2, vars))
          \<and> ((\<forall>r \<in> set Routes. r \<noteq> R1 \<and> match r path \<noteq> None \<longrightarrow>
                  matchVarCount R1 < matchVarCount r) \<longrightarrow>
               (\<exists>vars. tryMatchRoute Routes path = Inr (R1, vars) \<and> match R1 path = Some vars))"
      using notR2 isR1 by blast
  qed
  show ?thesis
    using False unfold none some found pair by blast
qed

text \<open>
  Claim C6 as it was stated, without the exception and for every such pair, does not
  hold. With \<^verbatim>\<open>/a/b\<close>, \<^verbatim>\<open>/a/#X\<close> (one variable) and \<^verbatim>\<open>/#X/#Y\<close> (two) registered, all three
  match \<^verbatim>\<open>/a/b\<close>, and resolution returns the literal route, not the one-variable route
  of the pair. And a path \<^verbatim>\<open>/._b\<close>, which no registered route matches, fails with
  \<open>ENOTSUP\<close> (45), not \<open>ENOENT\<close> (2); so does \<^verbatim>\<open>/a/._b\<close>, although routes match it.
\<close>

lemma appleDouble_examples:
  "\<not> isAppleDouble (js ''/a/b'')" "isAppleDouble (js ''/._b'')" "isAppleDouble (js ''/a/._b'')"
  by (simp_all add: isAppleDouble_def js_def)

theorem resolution_counterexample:
  "prefixRoute 1 (js ''/a/'') ''R1'' \<in> set threeRoutes
   \<and> prefixRoute 2 (js ''/'') ''R2'' \<in> set threeRoutes
   \<and> match (prefixRoute 1 (js ''/a/'') ''R1'') (js ''/a/b'') = Some [(js ''rest'', js ''b'')]
   \<and> match (prefixRoute 2 (js ''/'') ''R2'') (js ''/a/b'') = Some [(js ''rest'', js ''a/b'')]
   \<and> matchVarCount (prefixRoute 2 (js ''/'') ''R2'') =
       matchVarCount (prefixRoute 1 (js ''/a/'') ''R1'') + 1
   \<and> tryMatchRoute threeRoutes (js ''/a/b'') = Inr (literalRoute (js ''/a/b'') ''R0'', [])
   \<and> tryMatchRoute threeRoutes (js ''/a/b'') \<noteq>
       Inr (prefixRoute 1 (js ''/a/'') ''R1'', [(js ''rest'', js ''b'')])
   \<and> match (literalRoute (js ''/a/b'') ''R0'') (js ''/._b'') = None
   \<and> tryMatchRoute [literalRoute (js ''/a/b'') ''R0''] (js ''/._b'') = Inl (UnixError 45)
   \<and> tryMatchRoute [literalRoute (js ''/a/b'') ''R0''] (js ''/._b'') \<noteq> Inl (UnixError ENOENT)
   \<and> match (prefixRoute 1 (js ''/a/'') ''R1'') (js ''/a/._b'') = Some [(js ''rest'', js ''._b'')]
   \<and> tryMatchRoute threeRoutes (js ''/a/._b'') = Inl (UnixError 45)"
proof -
  have m: "match (prefixRoute 1 (js ''/a/'') ''R1'') (js ''/a/b'') = Some [(js ''rest'', js ''b'')]"
    "match (prefixRoute 2 (js ''/'') ''R2'') (js ''/a/b'') = Some [(js ''rest'', js ''a/b'')]"
    "match (literalRoute (js ''/a/b'') ''R0'') (js ''/._b'') = None"
    "match (prefixRoute 1 (js ''/a/'') ''R1'') (js ''/a/._b'') = Some [(js ''rest'', js ''._b'')]"
    by (simp_all add: prefixRoute_def literalRoute_def js_def)
  have sorted: "sortedRoutes threeRoutes =
      [literalRoute (js ''/a/b'') ''R0'', prefixRoute 1 (js ''/a/'') ''R1'',
       prefixRoute 2 (js ''/'') ''R2'']"
    by (simp add: sortedRoutes_def threeRoutes_def prefixRoute_def literalRoute_def)
  have res: "tryMatchRoute threeRoutes (js ''/a/b'') = Inr (literalRoute (js ''/a/b'') ''R0'', [])"
    using appleDouble_examples(1) by (simp add: tryMatchRoute_def sorted) (simp add: literalRoute_def)
  have neq: "literalRoute (js ''/a/b'') ''R0'' \<noteq> prefixRoute 1 (js ''/a/'') ''R1''"
    by (simp add: literalRoute_def prefixRoute_def)
  have side: "tryMatchRoute [literalRoute (js ''/a/b'') ''R0''] (js ''/._b'') = Inl (UnixError 45)"
    "tryMatchRoute threeRoutes (js ''/a/._b'') = Inl (UnixError 45)"
    using appleDouble_examples(2,3) by (simp_all add: tryMatchRoute_def ENOTSUP_def)
  have mem: "prefixRoute 1 (js ''/a/'') ''R1'' \<in> set threeRoutes"
    "prefixRoute 2 (js ''/'') ''R2'' \<in> set threeRoutes"
    by (simp_all add: threeRoutes_def)
  have cnt: "matchVarCount (prefixRoute 2 (js ''/'') ''R2'') =
       matchVarCount (prefixRoute 1 (js ''/a/'') ''R1'') + 1"
    by (simp add: prefixRoute_def)
  have other: "tryMatchRoute threeRoutes (js ''/a/b'') \<noteq>
       Inr (prefixRoute 1 (js ''/a/'') ''R1'', [(js ''rest'', js ''b'')])"
    using res neq by simp
  have notfound: "tryMatchRoute [literalRoute (js ''/a/b'') ''R0''] (js ''/._b'') \<noteq>
       Inl (UnixError ENOENT)"
    using side(1) by (simp add: ENOENT_def)
  show ?thesis
    using m res side mem cnt other notfound by blast
qed

text \<open>
  With only \<^verbatim>\<open>/#X/#Y\<close> and \<^verbatim>\<open>/a/#X\<close> registered, \<^verbatim>\<open>/a/b\<close> resolves to the route with one
  variable.
\<close>

theorem resolution_most_specific_first_witness:
  "\<not> isAppleDouble (js ''/a/b'')
   \<and> tryMatchRoute [prefixRoute 2 (js ''/'') ''R2'', prefixRoute 1 (js ''/a/'') ''R1''] (js ''/a/b'')
       = Inr (prefixRoute 1 (js ''/a/'') ''R1'', [(js ''rest'', js ''b'')])"
proof -
  let ?R1 = "prefixRoute 1 (js ''/a/'') ''R1''"
  let ?R2 = "prefixRoute 2 (js ''/'') ''R2''"
  have m1: "match ?R1 (js ''/a/b'') = Some [(js ''rest'', js ''b'')]"
    and m2: "match ?R2 (js ''/a/b'') = Some [(js ''rest'', js ''a/b'')]"
    by (simp_all add: prefixRoute_def js_def)
  have k: "matchVarCount ?R2 = matchVarCount ?R1 + 1"
    and k': "matchVarCount ?R1 < matchVarCount ?R2"
    by (simp_all add: prefixRoute_def)
  have only: "\<forall>r \<in> set [?R2, ?R1]. r \<noteq> ?R1 \<and> match r (js ''/a/b'') \<noteq> None \<longrightarrow>
      matchVarCount ?R1 < matchVarCount r"
    using k' by simp
  have prem: "?R1 \<in> set [?R2, ?R1] \<and> ?R2 \<in> set [?R2, ?R1]
      \<and> match ?R1 (js ''/a/b'') \<noteq> None \<and> match ?R2 (js ''/a/b'') \<noteq> None
      \<and> matchVarCount ?R2 = matchVarCount ?R1 + 1"
    using m1 m2 k by simp
  note all = resolution_most_specific_first [of "js ''/a/b''" "[?R2, ?R1]",
      THEN conjunct2, THEN mp, OF appleDouble_examples(1)]
  note pair = all [THEN conjunct2, THEN conjunct2, THEN conjunct2, THEN conjunct2]
  have "\<exists>vars. tryMatchRoute [?R2, ?R1] (js ''/a/b'') = Inr (?R1, vars)
          \<and> match ?R1 (js ''/a/b'') = Some vars"
    by (rule pair [THEN spec, THEN spec, THEN mp, OF prem, THEN conjunct2, THEN mp, OF only])
  then show ?thesis
    using m1 appleDouble_examples(1) by auto
qed

subsection \<open>\<^verbatim>\<open>release\<close> and the handles given out before\<close>

text \<open>
  Handles are numbered upwards from \<open>nextHandle\<close>, so a handle that was given out and
  released stays out of the cache whatever operations of content routes follow.
\<close>

lemma released_getattr: "released h s \<Longrightarrow> released h (snd (getattr g sd req s))"
  by (auto simp: released_def getattr_def callGetData_def
           split: prod.splits sum.splits option.splits)

lemma released_open: "released h s \<Longrightarrow> released h (snd (open_h g sd req s))"
  by (auto simp: released_def open_h_def callGetData_def alloc_def storeObject_def Let_def
           split: prod.splits sum.splits option.splits)

lemma released_read: "released h s \<Longrightarrow> released h (snd (read g sd req s))"
  by (auto simp: read_def split: sum.splits)

lemma released_write: "released h s \<Longrightarrow> released h (snd (write_h g sd req s))"
proof (cases "store s (req_fh req)")
  case None
  assume "released h s"
  then show ?thesis using None by (simp add: write_h_def writeBuffer_closed)
next
  case (Some entry)
  assume rel: "released h s"
  obtain path a where "store s (req_fh req) = Some (path, a)"
    using Some by (cases entry) simp
  then obtain a' s1 where wb: "writeBuffer req s = Inr (a', s1)"
    and nh: "nextHandle s1 = nextHandle s" and dm: "dom (store s1) = dom (store s)"
    using writeBuffer_result by blast
  have "released h s1"
    using rel nh dm by (auto simp: released_def domIff)
  then show ?thesis using wb
    by (auto simp: write_h_def callSetData_def released_def split: prod.splits sum.splits option.splits)
qed

lemma released_release: "released h s \<Longrightarrow> released h (snd (release g sd req s))"
  by (simp add: released_def release_def removeObjectForHandle_def)

lemma released_truncate: "released h s \<Longrightarrow> released h (snd (truncate_h g sd req s))"
  by (auto simp: released_def truncate_h_def callGetData_def callSetData_def alloc_def
                 setObjectForPath_def
           split: prod.splits sum.splits option.splits if_splits)

lemma released_content:
  "released h s \<Longrightarrow> makeRouteWithContents g sd name = Some operation \<Longrightarrow>
   released h (snd (operation req s))"
  by (cases name)
     (auto simp: makeRouteWithContents_def released_getattr released_open released_read
                 released_write released_release released_truncate)

lemma released_callRoute:
  assumes "contentRoutes Routes" and "released h s"
  shows "released h (snd (callRoute Routes req s))"
proof (cases "tryMatchRoute Routes (req_path req)")
  case (Inl e)
  then show ?thesis using assms(2) by (simp add: callRoute_def)
next
  case (Inr found)
  obtain route vars where found: "found = (route, vars)"
    by (cases found)
  then have "route \<in> set Routes"
    using Inr resolved_member by blast
  then obtain g sd where ops: "ops route = makeRouteWithContents g sd"
    using assms(1) by (auto simp: contentRoutes_def)
  show ?thesis
  proof (cases "ops route (req_op req)")
    case None
    then show ?thesis using Inr found assms(2) by (simp add: callRoute_def)
  next
    case (Some operation)
    then have "released h (snd (operation (req\<lparr>req_vars := vars\<rparr>) s))"
      using released_content [OF assms(2)] ops by simp
    then show ?thesis using Inr found Some by (simp add: callRoute_def)
  qed
qed

lemma released_onMessage:
  "contentRoutes Routes \<Longrightarrow> released h s \<Longrightarrow> released h (snd (onMessage Routes msg s))"
  using released_callRoute [of Routes h s]
  by (auto simp: onMessage_def split: sum.splits prod.splits) (metis snd_conv)

lemma released_serve:
  "contentRoutes Routes \<Longrightarrow> released h s \<Longrightarrow> released h (serve Routes msgs s)"
  by (induction msgs arbitrary: s) (simp_all add: released_onMessage)

lemma onMessage_content:
  assumes "decodeRequest msg = Inr req"
    and "tryMatchRoute Routes (req_path req) = Inr (route, vars)"
    and "ops route (req_op req) = Some operation"
  shows "onMessage Routes msg s =
     (Inr [finish req (fst (operation (req\<lparr>req_vars := vars\<rparr>) s))],
      snd (operation (req\<lparr>req_vars := vars\<rparr>) s))"
  using assms
  by (simp add: onMessage_def callRoute_def handlerSettles_def armed_def split: prod.splits)

lemma release_releases:
  "h \<le> nextHandle s \<Longrightarrow> req_fh rel = h \<Longrightarrow> released h (snd (release g sd rel s))"
  by (simp add: released_def release_def removeObjectForHandle_def)

lemma released_request_outcome:
  assumes "contentRoutes Routes" and "released h s"
    and "decodeRequest msg = Inr req" and "req_fh req = h"
    and "tryMatchRoute Routes (req_path req) = Inr (route, vars)"
  shows "(req_op req = Read \<or> req_op req = Write \<longrightarrow>
            onMessage Routes msg s = (Inr [errorResponse req TypeError], s))
       \<and> (req_op req = Release \<longrightarrow>
            onMessage Routes msg s = (Inr [okResponse req no_fields], s))"
proof -
  have "route \<in> set Routes"
    using assms(5) resolved_member by blast
  then obtain g sd where ops: "ops route = makeRouteWithContents g sd"
    using assms(1) by (auto simp: contentRoutes_def)
  have none: "store s (req_fh (req\<lparr>req_vars := vars\<rparr>)) = None"
    using assms(2,4) by (simp add: released_def)
  have rd: "req_op req = Read \<longrightarrow> onMessage Routes msg s = (Inr [errorResponse req TypeError], s)"
    using onMessage_content [OF assms(3,5), of "read g sd" s] ops read_closed [OF none, of g sd]
    by (simp add: makeRouteWithContents_def finish_Inl)
  have "write_h g sd (req\<lparr>req_vars := vars\<rparr>) s = (Inl TypeError, s)"
    using writeBuffer_closed [OF none] by (simp add: write_h_def)
  then have wr: "req_op req = Write \<longrightarrow>
      onMessage Routes msg s = (Inr [errorResponse req TypeError], s)"
    using onMessage_content [OF assms(3,5), of "write_h g sd" s] ops
    by (simp add: makeRouteWithContents_def finish_Inl)
  have "(store s)(h := None) = store s"
    using assms(2) by (simp add: released_def fun_upd_idem)
  then have "release g sd (req\<lparr>req_vars := vars\<rparr>) s = (Inr no_fields, s)"
    using assms(4) by (simp add: release_def removeObjectForHandle_def)
  then have rl: "req_op req = Release \<longrightarrow>
      onMessage Routes msg s = (Inr [okResponse req no_fields], s)"
    using onMessage_content [OF assms(3,5), of "release g sd" s] ops
    by (simp add: makeRouteWithContents_def finish_def no_fields_def)
  show ?thesis using rd wr rl by blast
qed

text \<open>
  Claim C9, as amended. \<^verbatim>\<open>release\<close> of a handle that was given out removes its cache
  entry and succeeds with an empty result. After that, whatever messages the content
  routes serve in between, a \<^verbatim>\<open>read\<close> or \<^verbatim>\<open>write\<close> that names the handle is answered
  with the error \<open>EIO\<close> and no data and leaves the state as it is, while another
  \<^verbatim>\<open>release\<close> of the handle is answered as a success, with an empty result, and changes
  nothing.
\<close>

theorem released_handle_rejected:
  assumes "contentRoutes Routes"
    and "h \<le> nextHandle s0"
    and "req_fh rel = h"
    and "release getData setData rel s0 = (r0, s1)"
    and "s2 = serve Routes msgs s1"
    and "decodeRequest msg = Inr req"
    and "req_fh req = h"
    and "tryMatchRoute Routes (req_path req) = Inr (route, vars)"
  shows "r0 = Inr no_fields
       \<and> store s1 h = None
       \<and> store s2 h = None
       \<and> (req_op req = Read \<or> req_op req = Write \<longrightarrow>
            onMessage Routes msg s2 =
              (Inr [\<lparr>resp_id = req_id req, resp_op = req_op req, resp_error = Some EIO,
                     resp_fields = no_fields\<rparr>], s2))
       \<and> (req_op req = Release \<longrightarrow>
            onMessage Routes msg s2 =
              (Inr [\<lparr>resp_id = req_id req, resp_op = Release, resp_error = None,
                     resp_fields = no_fields\<rparr>], s2))"
proof -
  have r0: "r0 = Inr no_fields" and s1: "s1 = snd (release getData setData rel s0)"
    using assms(4) by (simp_all add: release_def)
  have rel1: "released h s1"
    using release_releases [OF assms(2,3)] s1 by simp
  then have rel2: "released h s2"
    using released_serve [OF assms(1)] assms(5) by simp
  note out = released_request_outcome [OF assms(1) rel2 assms(6,7,8)]
  show ?thesis
    using r0 rel1 rel2 out by (auto simp: released_def errorResponse_def okResponse_def)
qed

lemma contentRoutes_samples: "contentRoutes readOnlyRoutes" "contentRoutes fileRoutes"
  by (auto simp: contentRoutes_def readOnlyRoutes_def fileRoutes_def literalRoute_def)

lemma decode_no_buf: "req_buf msg = [] \<Longrightarrow> decodeRequest msg = Inr msg"
  by (simp add: decodeRequest_def)

text \<open>
  Claim C9 as it was stated, with \<^verbatim>\<open>release\<close> among the operations that are rejected,
  does not hold: \<^verbatim>\<open>/tabs.json\<close> is opened, which gives handle 1, and released; a second
  \<^verbatim>\<open>release\<close> of handle 1 is answered without an error.
\<close>

theorem second_release_succeeds:
  "fst (onMessage readOnlyRoutes (message 1 Open (js ''/tabs.json'')) (initial (js ''[]''))) =
     Inr [\<lparr>resp_id = 1, resp_op = Open, resp_error = None,
           resp_fields = no_fields\<lparr>res_fh := Some 1\<rparr>\<rparr>]
   \<and> fst (onMessage readOnlyRoutes ((message 2 Release (js ''/tabs.json''))\<lparr>req_fh := 1\<rparr>)
        (serve readOnlyRoutes [message 1 Open (js ''/tabs.json'')] (initial (js ''[]'')))) =
     Inr [\<lparr>resp_id = 2, resp_op = Release, resp_error = None, resp_fields = no_fields\<rparr>]
   \<and> fst (onMessage readOnlyRoutes ((message 3 Release (js ''/tabs.json''))\<lparr>req_fh := 1\<rparr>)
        (serve readOnlyRoutes
           [message 1 Open (js ''/tabs.json''),
            (message 2 Release (js ''/tabs.json''))\<lparr>req_fh := 1\<rparr>] (initial (js ''[]'')))) =
     Inr [\<lparr>resp_id = 3, resp_op = Release, resp_error = None, resp_fields = no_fields\<rparr>]"
proof -
  let ?p = "js ''/tabs.json''"
  let ?opn = "message 1 Open ?p"
  let ?rel = "(message 2 Release ?p)\<lparr>req_fh := 1\<rparr>"
  let ?rel' = "(message 3 Release ?p)\<lparr>req_fh := 1\<rparr>"
  let ?route = "literalRoute ?p (makeRouteWithContents liveText None)"
  let ?s0 = "initial (js ''[]'')"
  let ?sA = "snd (open_h liveText None (?opn\<lparr>req_vars := []\<rparr>) ?s0)"
  let ?sB = "snd (release liveText None (?rel\<lparr>req_vars := []\<rparr>) ?sA)"
  have tr: "tryMatchRoute readOnlyRoutes ?p = Inr (?route, [])"
    by (simp add: readOnlyRoutes_def resolve_literal not_appleDouble_tabs)
  have path: "req_path ?opn = ?p" "req_path ?rel = ?p" "req_path ?rel' = ?p"
    by (simp_all add: message_def)
  have dec: "decodeRequest ?opn = Inr ?opn" "decodeRequest ?rel = Inr ?rel"
    "decodeRequest ?rel' = Inr ?rel'"
    by (simp_all add: decode_no_buf message_def)
  have trs: "tryMatchRoute readOnlyRoutes (req_path ?opn) = Inr (?route, [])"
    "tryMatchRoute readOnlyRoutes (req_path ?rel) = Inr (?route, [])"
    "tryMatchRoute readOnlyRoutes (req_path ?rel') = Inr (?route, [])"
    using tr by (simp_all add: message_def)
  have handlers: "ops ?route (req_op ?opn) = Some (open_h liveText None)"
    "ops ?route (req_op ?rel) = Some (release liveText None)"
    by (simp_all add: literalRoute_def makeRouteWithContents_def message_def)
  have opn: "onMessage readOnlyRoutes ?opn ?s0 =
      (Inr [finish ?opn (fst (open_h liveText None (?opn\<lparr>req_vars := []\<rparr>) ?s0))], ?sA)"
    by (rule onMessage_content [OF dec(1) trs(1) handlers(1)])
  have opened: "fst (open_h liveText None (?opn\<lparr>req_vars := []\<rparr>) ?s0) =
      Inr (no_fields\<lparr>res_fh := Some 1\<rparr>)" and nh: "nextHandle ?sA = 1"
    by (simp_all add: open_h_def callGetData_def liveText_def initial_def toUtf8Array_def
          alloc_def storeObject_def)
  have first: "fst (onMessage readOnlyRoutes ?opn ?s0) =
      Inr [\<lparr>resp_id = 1, resp_op = Open, resp_error = None,
            resp_fields = no_fields\<lparr>res_fh := Some 1\<rparr>\<rparr>]"
    using opn opened by (simp add: finish_def okResponse_def no_fields_def message_def)
  have sA: "serve readOnlyRoutes [?opn] ?s0 = ?sA"
    using opn by simp
  have rel: "onMessage readOnlyRoutes ?rel ?sA =
      (Inr [finish ?rel (fst (release liveText None (?rel\<lparr>req_vars := []\<rparr>) ?sA))], ?sB)"
    by (rule onMessage_content [OF dec(2) trs(2) handlers(2)])
  have second: "fst (onMessage readOnlyRoutes ?rel ?sA) =
      Inr [\<lparr>resp_id = 2, resp_op = Release, resp_error = None, resp_fields = no_fields\<rparr>]"
    using rel by (simp add: release_def finish_def okResponse_def no_fields_def message_def)
  have sB: "serve readOnlyRoutes [?opn, ?rel] ?s0 = ?sB"
    using opn rel by simp
  have "released 1 ?sB"
    using nh by (intro release_releases) (simp_all add: message_def)
  then have "onMessage readOnlyRoutes ?rel' ?sB = (Inr [okResponse ?rel' no_fields], ?sB)"
    using released_request_outcome [OF contentRoutes_samples(1) _ dec(3) _ trs(3), of 1 ?sB]
    by (simp add: message_def)
  then have third: "fst (onMessage readOnlyRoutes ?rel' ?sB) =
      Inr [\<lparr>resp_id = 3, resp_op = Release, resp_error = None, resp_fields = no_fields\<rparr>]"
    by (simp add: okResponse_def message_def)
  show ?thesis
    using first second third sA sB by simp
qed

text \<open>
  Handle 1 of two open handles is released, the file is opened once more (handle 3), and
  then a \<^verbatim>\<open>read\<close> on handle 1 is answered with \<open>EIO\<close>.
\<close>

theorem released_handle_rejected_witness:
  "contentRoutes fileRoutes
   \<and> 1 \<le> nextHandle twoHandles
   \<and> decodeRequest ((message 7 Read (js ''/f''))\<lparr>req_fh := 1, req_size := 5\<rparr>) =
       Inr ((message 7 Read (js ''/f''))\<lparr>req_fh := 1, req_size := 5\<rparr>)
   \<and> fst (onMessage fileRoutes ((message 7 Read (js ''/f''))\<lparr>req_fh := 1, req_size := 5\<rparr>)
        (serve fileRoutes [message 6 Open (js ''/f'')]
           (snd (release liveText (Some storeText) ((message 5 Release (js ''/f''))\<lparr>req_fh := 1\<rparr>)
              twoHandles)))) =
     Inr [\<lparr>resp_id = 7, resp_op = Read, resp_error = Some 5, resp_fields = no_fields\<rparr>]"
proof -
  let ?rel = "(message 5 Release (js ''/f''))\<lparr>req_fh := 1\<rparr>"
  let ?rd = "(message 7 Read (js ''/f''))\<lparr>req_fh := 1, req_size := 5\<rparr>"
  let ?r = "release liveText (Some storeText) ?rel twoHandles"
  have h2: "1 \<le> nextHandle twoHandles"
    by (simp add: twoHandles_def)
  have h3: "req_fh ?rel = 1"
    by (simp add: message_def)
  have h4: "?r = (fst ?r, snd ?r)"
    by simp
  have h6: "decodeRequest ?rd = Inr ?rd"
    by (simp add: decode_no_buf message_def)
  have h7: "req_fh ?rd = 1"
    by (simp add: message_def)
  have h8: "tryMatchRoute fileRoutes (req_path ?rd) =
      Inr (literalRoute (js ''/f'') (makeRouteWithContents liveText (Some storeText)), [])"
    by (simp add: fileRoutes_def message_def resolve_literal not_appleDouble_f)
  from released_handle_rejected [where msgs = "[message 6 Open (js ''/f'')]",
      OF contentRoutes_samples(2) h2 h3 h4 refl h6 h7 h8]
    contentRoutes_samples(2) h2 h6
  show ?thesis
    by (simp add: message_def EIO_def)
qed

subsection \<open>A binary payload through the dispatcher and \<^verbatim>\<open>write\<close>\<close>

text \<open>
  Base64 at the two ends of the dispatcher keeps every byte: \<^verbatim>\<open>atob\<close> undoes \<^verbatim>\<open>btoa\<close>,
  a request's \<^verbatim>\<open>buf\<close> reaches the handler as the binary string of the bytes it encodes,
  and the binary string that \<^verbatim>\<open>read\<close> returns leaves as the base64 text of its bytes.
\<close>

lemma alphabet_length: "length b64alphabet = 64"
  by (simp add: b64alphabet_def js_def)

lemma alphabet_distinct: "distinct b64alphabet"
  by (simp add: b64alphabet_def js_def)

lemma alphabet_plain: "c \<in> set b64alphabet \<Longrightarrow> c \<noteq> 0x3D \<and> \<not> isAsciiWhitespace c"
  by (auto simp: b64alphabet_def js_def isAsciiWhitespace_def)

lemma b64index_b64char: "n < 64 \<Longrightarrow> b64index (b64char n) = Some n"
  using map_of_zip_nth [of b64alphabet "[0..<64]" n] alphabet_length alphabet_distinct
  by (simp add: b64index_def b64char_def)

lemma b64char_plain: "b64char n \<noteq> 0x3D \<and> \<not> isAsciiWhitespace (b64char n)"
proof -
  have "b64char n \<in> set b64alphabet"
    by (simp add: b64char_def alphabet_length)
  then show ?thesis by (rule alphabet_plain)
qed

lemma sextets_small: "\<forall>b \<in> set bs. b < 256 \<Longrightarrow> \<forall>x \<in> set (b64sextets bs). x < 64"
  by (induction bs rule: b64sextets.induct) (auto simp: less_mult_imp_div_less)

lemma sextets_length: "length (b64sextets bs) mod 4 \<noteq> 1"
  by (induction bs rule: b64sextets.induct) simp_all

lemma b64enc_no_space: "filter (\<lambda>c. \<not> isAsciiWhitespace c) (b64enc bs) = b64enc bs"
  by (induction bs rule: b64enc.induct) (simp_all add: b64char_plain, simp_all add: isAsciiWhitespace_def)

lemma b64enc_length: "length (b64enc bs) mod 4 = 0 \<and> (bs \<noteq> [] \<longrightarrow> 4 \<le> length (b64enc bs))"
  by (induction bs rule: b64enc.induct) simp_all

lemma stripPadding_append:
  assumes "length xs mod 4 = 0" and "2 \<le> length ys"
  shows "stripPadding (xs @ ys) = xs @ stripPadding ys"
proof -
  have ys: "ys \<noteq> []" and bl: "butlast ys \<noteq> []"
    using assms(2) by (auto simp: butlast_conv_take)
  have "length (xs @ ys) mod 4 = length ys mod 4"
    using assms(1) by (simp add: mod_add_left_eq [symmetric, of "length xs"])
  then show ?thesis
    using ys bl by (simp add: stripPadding_def butlast_append)
qed

lemma b64enc_unpadded: "stripPadding (b64enc bs) = map b64char (b64sextets bs)"
proof (induction bs rule: b64enc.induct)
  case 1
  then show ?case by (simp add: stripPadding_def)
next
  case (2 a)
  then show ?case by (simp add: stripPadding_def)
next
  case (3 a b)
  then show ?case by (simp add: stripPadding_def b64char_plain)
next
  case (4 a b c r)
  show ?case
  proof (cases "r = []")
    case True
    then show ?thesis by (simp add: stripPadding_def b64char_plain)
  next
    case False
    then have "2 \<le> length (b64enc r)"
      using b64enc_length [of r] by simp
    then have "stripPadding ([b64char (a div 4), b64char (a mod 4 * 16 + b div 16),
        b64char (b mod 16 * 4 + c div 64), b64char (c mod 64)] @ b64enc r) =
      [b64char (a div 4), b64char (a mod 4 * 16 + b div 16),
        b64char (b mod 16 * 4 + c div 64), b64char (c mod 64)] @ stripPadding (b64enc r)"
      by (intro stripPadding_append) simp_all
    then show ?thesis using 4 by simp
  qed
qed

lemma those_index: "\<forall>x \<in> set sx. x < 64 \<Longrightarrow> those (map (b64index \<circ> b64char) sx) = Some sx"
  by (induction sx) (simp_all add: b64index_b64char)

lemma b64dec_sextets: "\<forall>b \<in> set bs. b < 256 \<Longrightarrow> b64dec (b64sextets bs) = bs"
proof (induction bs rule: b64sextets.induct)
  case 1
  then show ?case by simp
next
  case (2 a)
  then show ?case by simp
next
  case (3 a b)
  then have "a < 256" "b < 256" by simp_all
  then show ?case by (simp; presburger)
next
  case (4 a b c r)
  then have "a < 256" "b < 256" "c < 256" and "b64dec (b64sextets r) = r" by simp_all
  then show ?case by (simp; presburger)
qed

lemma atob_b64enc:
  assumes "\<forall>b \<in> set bs. b < 256"
  shows "atob (b64enc bs) = Inr (map of_nat bs)"
  using assms sextets_length [of bs]
  by (simp add: atob_def Let_def b64enc_no_space b64enc_unpadded those_index sextets_small
        b64dec_sextets)

lemma atob_btoa: "btoa s = Inr t \<Longrightarrow> atob t = Inr s"
proof -
  assume a: "btoa s = Inr t"
  then have small: "\<forall>c \<in> set s. c \<le> 0xFF" and enc: "t = b64enc (map unat s)"
    by (auto simp: btoa_def not_less split: if_splits)
  have "\<forall>b \<in> set (map unat s). b < 256"
    using small by (auto simp: word_le_nat_alt)
  then have "atob t = Inr (map of_nat (map unat s))"
    using enc atob_b64enc by blast
  then show ?thesis by (simp add: comp_def)
qed

lemma ucast_byte: "(ucast (b :: 8 word) :: 16 word) \<le> 0xFF \<and> unat (ucast b :: 16 word) = unat b"
proof -
  have small: "unat b < 256"
    using unsigned_less [of b, where 'a = nat] by simp
  have "unat (ucast b :: 16 word) = take_bit 16 (unat b)"
    by (simp add: unsigned_ucast_eq)
  then have same: "unat (ucast b :: 16 word) = unat b"
    using small by (simp add: take_bit_nat_eq_self)
  then show ?thesis
    using small by (simp add: word_le_nat_alt)
qed

lemma btoa_binary: "btoa (fromCharCode B) = Inr (b64enc (map unat B))"
  by (simp add: btoa_def fromCharCode_def ucast_byte not_less comp_def)

lemma ingress_keeps_bytes:
  assumes "\<forall>b \<in> set B. b < 256"
  shows "decodeRequest (req\<lparr>req_buf := b64enc B\<rparr>) = Inr (req\<lparr>req_buf := map of_nat B\<rparr>)"
proof (cases B)
  case Nil
  then show ?thesis by (simp add: decodeRequest_def)
next
  case (Cons b rest)
  then have "b64enc B \<noteq> []"
    using b64enc_length [of B] by auto
  then show ?thesis
    using atob_b64enc [OF assms] by (simp add: decodeRequest_def)
qed

lemma egress_keeps_bytes:
  "finish req (Inr (result\<lparr>res_buf := Some (fromCharCode B)\<rparr>)) =
     okResponse req (result\<lparr>res_buf := Some (b64enc (map unat B))\<rparr>)"
  by (cases B) (simp_all add: finish_def btoa_binary, simp add: fromCharCode_def)

lemma write_h_result:
  assumes "bufferOf s (req_fh req) = Some arr"
    and "setData req
           (utf8ArrayToString (written arr (req_offset req) (stringToUtf8Array (req_buf req))))
           (world s) = (Inr (), w)"
  shows "fst (write_h getData (Some setData) req s) =
           Inr (no_fields\<lparr>res_size := Some (length (stringToUtf8Array (req_buf req)))\<rparr>)
       \<and> bufferOf (snd (write_h getData (Some setData) req s)) (req_fh req) =
           Some (written arr (req_offset req) (stringToUtf8Array (req_buf req)))
       \<and> world (snd (write_h getData (Some setData) req s)) = w"
proof -
  obtain path a where sa: "store s (req_fh req) = Some (path, a)" and ha: "heap s a = arr"
    using assms(1) by (auto simp: bufferOf_Some)
  obtain a' s1 where wb: "writeBuffer req s = Inr (a', s1)"
    and st: "store s1 (req_fh req) = Some (path, a')"
    and hp: "heap s1 a' = written arr (req_offset req) (stringToUtf8Array (req_buf req))"
    and w1: "world s1 = world s"
    using writeBuffer_result [OF sa] ha by metis
  show ?thesis
    using wb st hp w1 assms(2) by (simp add: write_h_def callSetData_def bufferOf_def)
qed

lemma atob_FF: "atob (js ''/w=='') = Inr [0xFF]"
  by code_simp

lemma btoa_C3BF: "btoa [0xC3, 0xBF] = Inr (js ''w78='')"
  by code_simp

lemma utf8_FF: "stringToUtf8Array [0xFF] = [0xC3, 0xBF]"
  by code_simp

text \<open>
  Claim C4 at the payload that is the single byte \<^verbatim>\<open>FF\<close>, base64 \<^verbatim>\<open>/w==\<close>. The dispatcher
  decodes it to the one-unit binary string, so the handler receives the byte as it is.
  \<^verbatim>\<open>write\<close> then runs that string through the UTF-8 encoder: into the handle opened on
  the empty file it writes the two bytes \<^verbatim>\<open>C3 BF\<close> and answers that 2 bytes were
  written. Reading the handle back returns those two bytes, base64 \<^verbatim>\<open>w78=\<close>. The read
  path and both ends of the dispatcher keep every byte; the write path does not keep a
  byte above \<^verbatim>\<open>7F\<close>.
\<close>

theorem write_reencodes_binary_payload:
  "decodeRequest ((message 2 Write (js ''/f''))\<lparr>req_fh := 1, req_buf := js ''/w==''\<rparr>) =
     Inr ((message 2 Write (js ''/f''))\<lparr>req_fh := 1, req_buf := [0xFF]\<rparr>)
   \<and> fst (onMessage fileRoutes ((message 2 Write (js ''/f''))\<lparr>req_fh := 1, req_buf := js ''/w==''\<rparr>)
        (serve fileRoutes [message 1 Open (js ''/f'')] (initial []))) =
     Inr [\<lparr>resp_id = 2, resp_op = Write, resp_error = None,
           resp_fields = no_fields\<lparr>res_size := Some 2\<rparr>\<rparr>]
   \<and> bufferOf (serve fileRoutes
        [message 1 Open (js ''/f''),
         (message 2 Write (js ''/f''))\<lparr>req_fh := 1, req_buf := js ''/w==''\<rparr>] (initial [])) 1 =
     Some [0xC3, 0xBF]
   \<and> fst (onMessage fileRoutes ((message 3 Read (js ''/f''))\<lparr>req_fh := 1, req_size := 10\<rparr>)
        (serve fileRoutes
          [message 1 Open (js ''/f''),
           (message 2 Write (js ''/f''))\<lparr>req_fh := 1, req_buf := js ''/w==''\<rparr>] (initial []))) =
     Inr [\<lparr>resp_id = 3, resp_op = Read, resp_error = None,
           resp_fields = no_fields\<lparr>res_buf := Some (js ''w78='')\<rparr>\<rparr>]"
proof -
  let ?p = "js ''/f''"
  let ?opn = "message 1 Open ?p"
  let ?wmsg = "(message 2 Write ?p)\<lparr>req_fh := 1, req_buf := js ''/w==''\<rparr>"
  let ?wr = "(message 2 Write ?p)\<lparr>req_fh := 1, req_buf := [0xFF]\<rparr>"
  let ?rd = "(message 3 Read ?p)\<lparr>req_fh := 1, req_size := 10\<rparr>"
  let ?route = "literalRoute ?p (makeRouteWithContents liveText (Some storeText))"
  let ?s0 = "initial ([] :: jsstring)"
  let ?sA = "snd (open_h liveText (Some storeText) (?opn\<lparr>req_vars := []\<rparr>) ?s0)"
  let ?sB = "snd (write_h liveText (Some storeText) (?wr\<lparr>req_vars := []\<rparr>) ?sA)"
  have decW: "decodeRequest ?wmsg = Inr ?wr"
    by (simp add: decodeRequest_def message_def atob_FF) (simp add: js_def)
  have dec: "decodeRequest ?opn = Inr ?opn" "decodeRequest ?rd = Inr ?rd"
    by (simp_all add: decode_no_buf message_def)
  have tr: "tryMatchRoute fileRoutes ?p = Inr (?route, [])"
    by (simp add: fileRoutes_def resolve_literal not_appleDouble_f)
  then have trs: "tryMatchRoute fileRoutes (req_path ?opn) = Inr (?route, [])"
    "tryMatchRoute fileRoutes (req_path ?wr) = Inr (?route, [])"
    "tryMatchRoute fileRoutes (req_path ?rd) = Inr (?route, [])"
    by (simp_all add: message_def)
  have handlers: "ops ?route (req_op ?opn) = Some (open_h liveText (Some storeText))"
    "ops ?route (req_op ?wr) = Some (write_h liveText (Some storeText))"
    "ops ?route (req_op ?rd) = Some (read liveText (Some storeText))"
    by (simp_all add: literalRoute_def makeRouteWithContents_def message_def)
  have opn: "onMessage fileRoutes ?opn ?s0 =
      (Inr [finish ?opn (fst (open_h liveText (Some storeText) (?opn\<lparr>req_vars := []\<rparr>) ?s0))], ?sA)"
    by (rule onMessage_content [OF dec(1) trs(1) handlers(1)])
  then have sA: "serve fileRoutes [?opn] ?s0 = ?sA"
    by simp
  have bufA: "bufferOf ?sA (req_fh (?wr\<lparr>req_vars := []\<rparr>)) = Some []"
    and worldA: "world ?sA = []"
    by (simp_all add: open_h_def callGetData_def liveText_def initial_def toUtf8Array_def
          utf8_empty alloc_def storeObject_def bufferOf_def message_def)
  have wrt: "written [] 0 [0xC3, 0xBF] = [0xC3, 0xBF]"
    by (simp add: written_def)
  have setter: "storeText (?wr\<lparr>req_vars := []\<rparr>)
          (utf8ArrayToString (written [] (req_offset (?wr\<lparr>req_vars := []\<rparr>))
             (stringToUtf8Array (req_buf (?wr\<lparr>req_vars := []\<rparr>)))))
          (world ?sA) = (Inr (), utf8ArrayToString [0xC3, 0xBF])"
    by (simp add: storeText_def message_def utf8_FF wrt)
  note w = write_h_result [of ?sA "?wr\<lparr>req_vars := []\<rparr>" "[]" storeText
      "utf8ArrayToString [0xC3, 0xBF]" liveText, OF bufA setter]
  have size: "fst (write_h liveText (Some storeText) (?wr\<lparr>req_vars := []\<rparr>) ?sA) =
      Inr (no_fields\<lparr>res_size := Some 2\<rparr>)"
    and bufB: "bufferOf ?sB 1 = Some [0xC3, 0xBF]"
    using w by (simp_all add: message_def utf8_FF wrt)
  have wr: "onMessage fileRoutes ?wmsg ?sA =
      (Inr [finish ?wr (fst (write_h liveText (Some storeText) (?wr\<lparr>req_vars := []\<rparr>) ?sA))], ?sB)"
    by (rule onMessage_content [OF decW trs(2) handlers(2)])
  then have second: "fst (onMessage fileRoutes ?wmsg ?sA) =
      Inr [\<lparr>resp_id = 2, resp_op = Write, resp_error = None,
            resp_fields = no_fields\<lparr>res_size := Some 2\<rparr>\<rparr>]"
    using size by (simp add: finish_def okResponse_def no_fields_def message_def)
  have sB: "serve fileRoutes [?opn, ?wmsg] ?s0 = ?sB"
    using opn wr by simp
  have "bufferOf ?sB (req_fh (?rd\<lparr>req_vars := []\<rparr>)) = Some [0xC3, 0xBF]"
    using bufB by (simp add: message_def)
  then have "read liveText (Some storeText) (?rd\<lparr>req_vars := []\<rparr>) ?sB =
      (Inr (no_fields\<lparr>res_buf := Some [0xC3, 0xBF]\<rparr>), ?sB)"
    using read_cached [of ?sB "?rd\<lparr>req_vars := []\<rparr>" "[0xC3, 0xBF]" liveText "Some storeText"]
    by (simp add: fromCharCode_def message_def)
  then have third: "fst (onMessage fileRoutes ?rd ?sB) =
      Inr [\<lparr>resp_id = 3, resp_op = Read, resp_error = None,
            resp_fields = no_fields\<lparr>res_buf := Some (js ''w78='')\<rparr>\<rparr>]"
    using onMessage_content [OF dec(2) trs(3) handlers(3), of ?sB]
    by (simp add: finish_def okResponse_def no_fields_def btoa_C3BF message_def)
  show ?thesis
    using decW second third sA sB bufB by simp
qed

subsection \<open>\<^verbatim>\<open>write\<close> of a payload that is not ASCII\<close>

lemma decode_zeros_FF: "utf8ArrayToString [0, 0, 0, 0, 0, 0xC3, 0xBF] = [0, 0, 0, 0, 0, 0xFF]"
  by (simp add: utf8ArrayToString_def stripBOM_def utf16Units_def)

text \<open>
  Claim C2 at a payload that is not ASCII: the single byte \<^verbatim>\<open>FF\<close>, base64 \<^verbatim>\<open>/w==\<close>, written
  at offset 5 into the handle opened on the empty file. By the claim the buffer grows to
  \<open>offset + len(buf) = 6\<close> bytes, \<^verbatim>\<open>00 00 00 00 00 FF\<close>, and the result is 1, the number of
  bytes written. \<^verbatim>\<open>write\<close> measures and writes \<^verbatim>\<open>bufarr\<close>, the UTF-8 encoding of the binary
  string it was given: the buffer becomes the seven bytes \<^verbatim>\<open>00 00 00 00 00 C3 BF\<close>, the
  response says that 2 bytes were written, and the write-accessor gets the decoding of the
  whole buffer, five NUL and \<^verbatim>\<open>U+00FF\<close>. Growth, zero fill, the call of the write-accessor
  with the whole buffer and the result are as claimed when counted in \<^verbatim>\<open>bufarr\<close>
  (\<open>write_h_behaviour\<close>), and \<^verbatim>\<open>bufarr\<close> is \<^verbatim>\<open>buf\<close> when every byte of it is below \<^verbatim>\<open>80\<close>.
\<close>

theorem write_grows_by_encoded_length:
  "decodeRequest ((message 2 Write (js ''/f''))\<lparr>req_fh := 1, req_offset := 5, req_buf := js ''/w==''\<rparr>) =
     Inr ((message 2 Write (js ''/f''))\<lparr>req_fh := 1, req_offset := 5, req_buf := [0xFF]\<rparr>)
   \<and> bufferOf (serve fileRoutes [message 1 Open (js ''/f'')] (initial [])) 1 = Some []
   \<and> fst (onMessage fileRoutes
        ((message 2 Write (js ''/f''))\<lparr>req_fh := 1, req_offset := 5, req_buf := js ''/w==''\<rparr>)
        (serve fileRoutes [message 1 Open (js ''/f'')] (initial []))) =
     Inr [\<lparr>resp_id = 2, resp_op = Write, resp_error = None,
           resp_fields = no_fields\<lparr>res_size := Some 2\<rparr>\<rparr>]
   \<and> bufferOf (serve fileRoutes
        [message 1 Open (js ''/f''),
         (message 2 Write (js ''/f''))\<lparr>req_fh := 1, req_offset := 5, req_buf := js ''/w==''\<rparr>]
        (initial [])) 1 =
     Some [0, 0, 0, 0, 0, 0xC3, 0xBF]
   \<and> world (serve fileRoutes
        [message 1 Open (js ''/f''),
         (message 2 Write (js ''/f''))\<lparr>req_fh := 1, req_offset := 5, req_buf := js ''/w==''\<rparr>]
        (initial [])) =
     [0, 0, 0, 0, 0, 0xFF]"
proof -
  let ?p = "js ''/f''"
  let ?opn = "message 1 Open ?p"
  let ?wmsg = "(message 2 Write ?p)\<lparr>req_fh := 1, req_offset := 5, req_buf := js ''/w==''\<rparr>"
  let ?wr = "(message 2 Write ?p)\<lparr>req_fh := 1, req_offset := 5, req_buf := [0xFF]\<rparr>"
  let ?route = "literalRoute ?p (makeRouteWithContents liveText (Some storeText))"
  let ?s0 = "initial ([] :: jsstring)"
  let ?sA = "snd (open_h liveText (Some storeText) (?opn\<lparr>req_vars := []\<rparr>) ?s0)"
  let ?sB = "snd (write_h liveText (Some storeText) (?wr\<lparr>req_vars := []\<rparr>) ?sA)"
  have decW: "decodeRequest ?wmsg = Inr ?wr"
    by (simp add: decodeRequest_def message_def atob_FF) (simp add: js_def)
  have dec: "decodeRequest ?opn = Inr ?opn"
    by (simp add: decode_no_buf message_def)
  have tr: "tryMatchRoute fileRoutes ?p = Inr (?route, [])"
    by (simp add: fileRoutes_def resolve_literal not_appleDouble_f)
  then have trs: "tryMatchRoute fileRoutes (req_path ?opn) = Inr (?route, [])"
    "tryMatchRoute fileRoutes (req_path ?wr) = Inr (?route, [])"
    by (simp_all add: message_def)
  have handlers: "ops ?route (req_op ?opn) = Some (open_h liveText (Some storeText))"
    "ops ?route (req_op ?wr) = Some (write_h liveText (Some storeText))"
    by (simp_all add: literalRoute_def makeRouteWithContents_def message_def)
  have opn: "onMessage fileRoutes ?opn ?s0 =
      (Inr [finish ?opn (fst (open_h liveText (Some storeText) (?opn\<lparr>req_vars := []\<rparr>) ?s0))], ?sA)"
    by (rule onMessage_content [OF dec trs(1) handlers(1)])
  then have sA: "serve fileRoutes [?opn] ?s0 = ?sA"
    by simp
  have bufA: "bufferOf ?sA (req_fh (?wr\<lparr>req_vars := []\<rparr>)) = Some []"
    and worldA: "world ?sA = []"
    by (simp_all add: open_h_def callGetData_def liveText_def initial_def toUtf8Array_def
          utf8_empty alloc_def storeObject_def bufferOf_def message_def)
  have wrt: "written [] 5 [0xC3, 0xBF] = [0, 0, 0, 0, 0, 0xC3, 0xBF]"
    by (simp add: written_def eval_nat_numeral)
  have setter: "storeText (?wr\<lparr>req_vars := []\<rparr>)
          (utf8ArrayToString (written [] (req_offset (?wr\<lparr>req_vars := []\<rparr>))
             (stringToUtf8Array (req_buf (?wr\<lparr>req_vars := []\<rparr>)))))
          (world ?sA) = (Inr (), [0, 0, 0, 0, 0, 0xFF])"
    by (simp add: storeText_def message_def utf8_FF wrt decode_zeros_FF)
  note w = write_h_result [of ?sA "?wr\<lparr>req_vars := []\<rparr>" "[]" storeText
      "[0, 0, 0, 0, 0, 0xFF]" liveText, OF bufA setter]
  have size: "fst (write_h liveText (Some storeText) (?wr\<lparr>req_vars := []\<rparr>) ?sA) =
      Inr (no_fields\<lparr>res_size := Some 2\<rparr>)"
    and bufB: "bufferOf ?sB 1 = Some [0, 0, 0, 0, 0, 0xC3, 0xBF]"
    and worldB: "world ?sB = [0, 0, 0, 0, 0, 0xFF]"
    using w by (simp_all add: message_def utf8_FF wrt)
  have wr: "onMessage fileRoutes ?wmsg ?sA =
      (Inr [finish ?wr (fst (write_h liveText (Some storeText) (?wr\<lparr>req_vars := []\<rparr>) ?sA))], ?sB)"
    by (rule onMessage_content [OF decW trs(2) handlers(2)])
  then have second: "fst (onMessage fileRoutes ?wmsg ?sA) =
      Inr [\<lparr>resp_id = 2, resp_op = Write, resp_error = None,
            resp_fields = no_fields\<lparr>res_size := Some 2\<rparr>\<rparr>]"
    using size by (simp add: finish_def okResponse_def no_fields_def message_def)
  have sB: "serve fileRoutes [?opn, ?wmsg] ?s0 = ?sB"
    using opn wr by simp
  have bufA1: "bufferOf ?sA 1 = Some []"
    using bufA by (simp add: message_def)
  show ?thesis
    using decW second sA sB bufA1 bufB worldB by simp
qed
subsection \<open>\<^verbatim>\<open>open\<close> and \<^verbatim>\<open>read\<close>\<close>

text \<open>
  What a handle holds is kept by every request that is not meant to change it. The accessors
  change the world and the call log only.
\<close>

lemma callSetData_same:
  "store (snd (callSetData setData req contents s)) = store s
   \<and> heap (snd (callSetData setData req contents s)) = heap s
   \<and> nextHandle (snd (callSetData setData req contents s)) = nextHandle s
   \<and> nextAddr (snd (callSetData setData req contents s)) = nextAddr s"
  by (simp add: callSetData_def split: option.splits prod.splits)

lemma callGetData_same:
  "store (snd (callGetData getData req s)) = store s
   \<and> heap (snd (callGetData getData req s)) = heap s
   \<and> nextHandle (snd (callGetData getData req s)) = nextHandle s
   \<and> nextAddr (snd (callGetData getData req s)) = nextAddr s"
  by (simp add: callGetData_def split: prod.splits)






text \<open>
  \<^verbatim>\<open>write\<close> changes the array of its own handle, or gives that handle a new array; every
  other array is as it was.
\<close>

lemma writeBuffer_frame:
  assumes "store s (req_fh req) = Some (p2, a2)"
  shows "\<exists>a' s'. writeBuffer req s = Inr (a', s')
           \<and> (a' = a2 \<or> a' = nextAddr s)
           \<and> store s' = (store s)(req_fh req \<mapsto> (p2, a'))
           \<and> (\<forall>x. x \<noteq> a' \<longrightarrow> heap s' x = heap s x)
           \<and> nextHandle s' = nextHandle s \<and> nextAddr s \<le> nextAddr s'
           \<and> (a' = a2 \<or> a' < nextAddr s')"
proof (cases "length (heap s a2) < req_offset req + length (stringToUtf8Array (req_buf req))")
  case True
  then show ?thesis using assms
    by (auto simp: writeBuffer_def getObjectForHandle_def Let_def grow_copy alloc_def
          setObjectForHandle_def grow_set)
next
  case False
  then show ?thesis using assms
    by (auto simp: writeBuffer_def getObjectForHandle_def Let_def typedSet_def map_upd_triv)
qed









lemma wellFormed_getattr: "wellFormed s \<Longrightarrow> wellFormed (snd (getattr g sd req s))"
  by (auto simp: wellFormed_def getattr_def callGetData_def
           split: prod.splits sum.splits option.splits)

lemma wellFormed_read: "wellFormed s \<Longrightarrow> wellFormed (snd (read g sd req s))"
  by (auto simp: read_def split: sum.splits)

lemma wellFormed_open:
  assumes "wellFormed s"
  shows "wellFormed (snd (open_h g sd req s))"
proof -
  have le: "\<And>h e. store s h = Some e \<Longrightarrow> h \<le> nextHandle s"
    and lt: "\<And>h p a. store s h = Some (p, a) \<Longrightarrow> a < nextAddr s"
    using assms by (auto simp: wellFormed_def)
  show ?thesis
    unfolding wellFormed_def
    by (auto simp: open_h_def callGetData_def alloc_def storeObject_def Let_def
                   le_Suc_eq less_Suc_eq dest: le lt
             split: prod.splits sum.splits option.splits if_splits)
qed

lemma wellFormed_release: "wellFormed s \<Longrightarrow> wellFormed (snd (release g sd req s))"
  by (auto simp: wellFormed_def release_def removeObjectForHandle_def split: if_splits)

lemma wellFormed_truncate:
  assumes "wellFormed s"
  shows "wellFormed (snd (truncate_h g sd req s))"
proof -
  have le: "\<And>h e. store s h = Some e \<Longrightarrow> h \<le> nextHandle s"
    and lt: "\<And>h p a. store s h = Some (p, a) \<Longrightarrow> a < nextAddr s"
    using assms by (auto simp: wellFormed_def)
  show ?thesis
    unfolding wellFormed_def
    by (auto simp: truncate_h_def callGetData_def callSetData_def alloc_def
                   setObjectForPath_def less_Suc_eq dest: le lt
             split: prod.splits sum.splits option.splits if_splits)
qed

lemma wellFormed_write:
  assumes "wellFormed s"
  shows "wellFormed (snd (write_h g sd req s))"
proof (cases "store s (req_fh req)")
  case None
  then show ?thesis using assms by (simp add: write_h_def writeBuffer_closed)
next
  case (Some entry)
  obtain p2 a2 where e: "store s (req_fh req) = Some (p2, a2)"
    using Some by (cases entry) simp
  obtain a' s1 where wb: "writeBuffer req s = Inr (a', s1)"
    and st1: "store s1 = (store s)(req_fh req \<mapsto> (p2, a'))"
    and nh: "nextHandle s1 = nextHandle s" and na: "nextAddr s \<le> nextAddr s1"
    and a': "a' = a2 \<or> a' < nextAddr s1"
    using writeBuffer_frame [OF e] by blast
  have "a2 < nextAddr s" and "req_fh req \<le> nextHandle s"
    using assms e by (auto simp: wellFormed_def)
  then have "wellFormed s1"
    using assms st1 nh na a' by (fastforce simp: wellFormed_def split: if_splits)
  moreover have "snd (write_h g sd req s) =
      snd (callSetData sd req (utf8ArrayToString (heap s1 a')) s1)"
    using wb by (simp add: write_h_def split: prod.splits sum.splits)
  ultimately show ?thesis
    using callSetData_same [of sd req "utf8ArrayToString (heap s1 a')" s1]
    by (simp add: wellFormed_def)
qed

lemma wellFormed_content:
  "wellFormed s \<Longrightarrow> makeRouteWithContents g sd name = Some operation \<Longrightarrow>
   wellFormed (snd (operation req s))"
  by (cases name)
     (auto simp: makeRouteWithContents_def wellFormed_getattr wellFormed_open wellFormed_read
                 wellFormed_write wellFormed_release wellFormed_truncate)

lemma wellFormed_onMessage:
  assumes "contentRoutes Routes" and "wellFormed s"
  shows "wellFormed (snd (onMessage Routes msg s))"
proof (cases "decodeRequest msg")
  case (Inl e)
  then show ?thesis using assms(2) by (simp add: onMessage_def)
next
  case (Inr req)
  have "wellFormed (snd (callRoute Routes req s))"
  proof (cases "tryMatchRoute Routes (req_path req)")
    case (Inl e)
    then show ?thesis using assms(2) by (simp add: callRoute_def)
  next
    case found: (Inr found)
    obtain route vars where fv: "found = (route, vars)"
      by (cases found)
    then have "route \<in> set Routes"
      using found resolved_member by blast
    then obtain g sd where ops: "ops route = makeRouteWithContents g sd"
      using assms(1) by (auto simp: contentRoutes_def)
    show ?thesis
    proof (cases "ops route (req_op req)")
      case None
      then show ?thesis using found fv assms(2) by (simp add: callRoute_def)
    next
      case (Some operation)
      then have "wellFormed (snd (operation (req\<lparr>req_vars := vars\<rparr>) s))"
        using wellFormed_content [OF assms(2)] ops by simp
      then show ?thesis using found fv Some by (simp add: callRoute_def)
    qed
  qed
  then show ?thesis using Inr by (auto simp: onMessage_def split: prod.splits)
qed

lemma wellFormed_afterwards:
  "contentRoutes Routes \<Longrightarrow> wellFormed s \<Longrightarrow> wellFormed (afterwards Routes occs s)"
proof (induction occs arbitrary: s)
  case Nil
  then show ?case by simp
next
  case (Cons occ occs)
  show ?case
  proof (cases occ)
    case (Request msg)
    then show ?thesis using Cons wellFormed_onMessage by fastforce
  next
    case (World w)
    have "wellFormed (s\<lparr>world := w\<rparr>)"
      using Cons.prems(2) by (simp add: wellFormed_def)
    then show ?thesis using Cons World by simp
  qed
qed






end
